theory Spec2Isabelle
  imports Complex_Main "HOL-Library.Multiset" "HOL-Library.Signed_Division"
begin

section \<open>Data model (model.hh)\<close>

text \<open>
  \<^verbatim>\<open>typedef double gol_type;\<close> The cost type is modelled by the real numbers: a double
  is the real number it stands for, and the infinities and NaN are outside the model.
  C++ \<^verbatim>\<open>int\<close> values are
  modelled by \<^typ>\<open>int\<close>; the theorems below are about index and counter ranges in which
  no 32-bit overflow occurs.
\<close>

type_synonym gol_type = real

text \<open>
  Everything that ends a call abnormally. \<open>BadCast\<close> is \<^verbatim>\<open>std::bad_cast\<close> thrown by a
  failed \<^verbatim>\<open>dynamic_cast\<close> to a reference, \<open>RuntimeError\<close> is \<^verbatim>\<open>std::runtime_error\<close> with
  its message, \<open>LengthError\<close> is what \<^verbatim>\<open>std::vector\<close> throws when asked for an
  impossible size, \<open>AssertionFailed\<close> is a failed \<^verbatim>\<open>assert\<close>. \<open>UndefinedBehaviour\<close> marks the
  places where the C++ code performs no check at all (a \<^verbatim>\<open>static_cast\<close> to the wrong
  class, \<^verbatim>\<open>std::vector::operator[]\<close> out of range, \<^verbatim>\<open>%\<close> by zero): nothing is raised
  there and nothing is guaranteed.
\<close>

datatype error =
  BadCast | RuntimeError string | LengthError | AssertionFailed | UndefinedBehaviour

text \<open>
  \<^verbatim>\<open>class permutation_problem\<close>: the protected members \<^verbatim>\<open>pi_m\<close> and \<^verbatim>\<open>cost_m\<close>.
  The pure virtual \<^verbatim>\<open>compute_cost\<close> and \<^verbatim>\<open>evaluate_swap\<close> of the user's subclass are
  parameters of the functions that call them.
\<close>

record permutation_problem =
  pi_m :: "int list"
  cost_m :: gol_type

text \<open>
  The class hierarchy below \<^verbatim>\<open>feasible_solution\<close>, as far as the casts of the library
  tell the classes apart: a solution that is only feasible, an
  \<^verbatim>\<open>evaluable_solution\<close> that is no permutation problem (with the value of its
  \<^verbatim>\<open>cost_function()\<close>), and a \<^verbatim>\<open>permutation_problem\<close>.
\<close>

datatype solution =
    Feasible_solution
  | Evaluable_solution gol_type
  | Permutation_problem permutation_problem

text \<open>\<^verbatim>\<open>dynamic_cast<const evaluable_solution &>(fs).cost_function()\<close>\<close>

fun evaluable_cost_function :: "solution \<Rightarrow> error + gol_type" where
  "evaluable_cost_function Feasible_solution = Inl BadCast"
| "evaluable_cost_function (Evaluable_solution c) = Inr c"
| "evaluable_cost_function (Permutation_problem p) = Inr (cost_m p)"

section \<open>Termination criteria (termination-criteria.hh)\<close>

text \<open>
  The termination criteria compare a cost with a sum or a difference of two doubles.
  The machine rounds that sum or difference to a double, and the comparison sees the
  rounded value. The two operations are therefore parameters of the model: \<open>dadd ar a b\<close>
  is what \<^verbatim>\<open>a + b\<close> yields on doubles and \<open>dsub ar a b\<close> what \<^verbatim>\<open>a - b\<close> yields. Comparisons
  of doubles are exact.
\<close>

record double_arith =
  dadd :: "gol_type \<Rightarrow> gol_type \<Rightarrow> gol_type"
  dsub :: "gol_type \<Rightarrow> gol_type \<Rightarrow> gol_type"

text \<open>
  The arithmetic without rounding. It is the arithmetic of the machine wherever the
  exact sum or difference is itself a double.
\<close>

definition exact_arith :: double_arith where
  "exact_arith = \<lparr> dadd = (\<lambda>a b. a + b), dsub = (\<lambda>a b. a - b) \<rparr>"

text \<open>\<^verbatim>\<open>std::numeric_limits<gol_type>::max()\<close> for IEEE binary64.\<close>

definition gol_type_max :: gol_type where
  "gol_type_max = (2 ^ 53 - 1) * 2 ^ 971"

text \<open>The data members of \<^verbatim>\<open>noimprove_termination_criteria\<close>.\<close>

record noimprove =
  best_cost_m :: gol_type
  max_noimprove_m :: int
  iterations_left_m :: int
  total_iterations_m :: int
  resets_m :: int
  second_guess_m :: int
  epsilon_m :: gol_type

text \<open>
  A chain node carries its \<^verbatim>\<open>next_m\<close> pointer (\<open>None\<close> is the null pointer) and the
  members of its class. \<open>Chain\<close> is the base class \<^verbatim>\<open>termination_criteria_chain\<close>
  itself, \<open>Iteration next max_m iterations_m\<close> is \<^verbatim>\<open>iteration_termination_criteria\<close>,
  \<open>Threshold next level_m epsilon_m\<close> is \<^verbatim>\<open>threshold_termination_criteria\<close>;
  \<^verbatim>\<open>forever\<close> has no constructor taking a successor.
\<close>

datatype tcc =
    Chain "tcc option"
  | Iteration "tcc option" int int
  | Noimprove "tcc option" noimprove
  | Threshold "tcc option" gol_type gol_type
  | Forever

text \<open>The constructors without a successor; \<open>mx\<close> is the parameter \<^verbatim>\<open>max\<close>.\<close>

definition iteration_termination_criteria :: "int \<Rightarrow> tcc" where
  "iteration_termination_criteria mx = Iteration None mx mx"

definition noimprove_init :: "int \<Rightarrow> gol_type \<Rightarrow> noimprove" where
  "noimprove_init mx epsilon =
     \<lparr> best_cost_m = gol_type_max, max_noimprove_m = mx, iterations_left_m = mx,
       total_iterations_m = 0, resets_m = 0, second_guess_m = 0, epsilon_m = epsilon \<rparr>"

definition noimprove_termination_criteria :: "int \<Rightarrow> gol_type \<Rightarrow> tcc" where
  "noimprove_termination_criteria mx epsilon = Noimprove None (noimprove_init mx epsilon)"

text \<open>The constructors taking a successor.\<close>

definition iteration_termination_criteria_next :: "tcc \<Rightarrow> int \<Rightarrow> tcc" where
  "iteration_termination_criteria_next next mx = Iteration (Some next) mx mx"

definition noimprove_termination_criteria_next :: "tcc \<Rightarrow> int \<Rightarrow> gol_type \<Rightarrow> tcc" where
  "noimprove_termination_criteria_next next mx epsilon =
     Noimprove (Some next) (noimprove_init mx epsilon)"

text \<open>
  The first statement block of \<^verbatim>\<open>noimprove_termination_criteria::operator()\<close>: the
  update made when \<^verbatim>\<open>current_cost < best_cost_m - epsilon_m\<close>, the difference being the
  rounded one.
\<close>

definition noimprove_update :: "double_arith \<Rightarrow> noimprove \<Rightarrow> gol_type \<Rightarrow> noimprove" where
  "noimprove_update ar ni current_cost =
     (if current_cost < dsub ar (best_cost_m ni) (epsilon_m ni)
      then ni \<lparr> best_cost_m := current_cost,
                second_guess_m :=
                  max (second_guess_m ni) (max_noimprove_m ni - iterations_left_m ni),
                iterations_left_m := max_noimprove_m ni,
                resets_m := resets_m ni + 1 \<rparr>
      else ni)"

text \<open>
  \<^verbatim>\<open>operator()\<close> of every node class; \<open>chain_call\<close> is the base class operator
  \<^verbatim>\<open>termination_criteria_chain::operator()\<close> applied to the \<^verbatim>\<open>next_m\<close> pointer. The
  result is the returned flag, or the exception that left the call, and the chain
  with the members as the call left them.
\<close>

fun tc_call :: "double_arith \<Rightarrow> tcc \<Rightarrow> solution \<Rightarrow> (error + bool) \<times> tcc"
  and chain_call :: "double_arith \<Rightarrow> tcc option \<Rightarrow> solution \<Rightarrow> (error + bool) \<times> tcc option" where
  "chain_call ar None fs = (Inr False, None)"
| "chain_call ar (Some t) fs = (case tc_call ar t fs of (r, t') \<Rightarrow> (r, Some t'))"
| "tc_call ar (Chain next) fs = (case chain_call ar next fs of (r, next') \<Rightarrow> (r, Chain next'))"
| "tc_call ar (Iteration next max_m iterations_m) fs =
     (if iterations_m \<le> 0 then (Inr True, Iteration next max_m iterations_m)
      else case chain_call ar next fs of
             (r, next') \<Rightarrow> (r, Iteration next' max_m (iterations_m - 1)))"
| "tc_call ar (Noimprove next ni) fs =
     (case evaluable_cost_function fs of
        Inl e \<Rightarrow> (Inl e, Noimprove next ni)
      | Inr current_cost \<Rightarrow>
          (let ni1 = noimprove_update ar ni current_cost in
           if iterations_left_m ni1 \<le> 0 then (Inr True, Noimprove next ni1)
           else case chain_call ar next fs of
                  (r, next') \<Rightarrow>
                    (r, Noimprove next'
                          (ni1 \<lparr> total_iterations_m := total_iterations_m ni1 + 1,
                                 iterations_left_m := iterations_left_m ni1 - 1 \<rparr>))))"
| "tc_call ar (Threshold next level_m eps) fs =
     (case evaluable_cost_function fs of
        Inl e \<Rightarrow> (Inl e, Threshold next level_m eps)
      | Inr current_cost \<Rightarrow>
          (if current_cost < dadd ar level_m eps then (Inr True, Threshold next level_m eps)
           else case chain_call ar next fs of (r, next') \<Rightarrow> (r, Threshold next' level_m eps)))"
| "tc_call ar Forever fs = (Inr False, Forever)"

text \<open>\<^verbatim>\<open>reset()\<close> of every node class, cascading to the successor.\<close>

fun tc_reset :: "tcc \<Rightarrow> tcc"
  and chain_reset :: "tcc option \<Rightarrow> tcc option" where
  "chain_reset None = None"
| "chain_reset (Some t) = Some (tc_reset t)"
| "tc_reset (Chain next) = Chain (chain_reset next)"
| "tc_reset (Iteration next max_m iterations_m) = Iteration (chain_reset next) max_m max_m"
| "tc_reset (Noimprove next ni) =
     Noimprove (chain_reset next)
       (ni \<lparr> iterations_left_m := max_noimprove_m ni,
             second_guess_m := 0, total_iterations_m := 0, resets_m := 0,
             best_cost_m := gol_type_max \<rparr>)"
| "tc_reset (Threshold next level_m eps) = Threshold (chain_reset next) level_m eps"
| "tc_reset Forever = Forever"

text \<open>
  A node called once for each solution of a list, in order: the flags returned and the
  node after the last call. A call that throws ends the run.
\<close>

fun tc_calls :: "double_arith \<Rightarrow> tcc \<Rightarrow> solution list \<Rightarrow> (error + bool list) \<times> tcc" where
  "tc_calls ar t [] = (Inr [], t)"
| "tc_calls ar t (fs # rest) =
     (case tc_call ar t fs of
        (Inl e, t') \<Rightarrow> (Inl e, t')
      | (Inr b, t') \<Rightarrow>
          (case tc_calls ar t' rest of
             (Inl e, t'') \<Rightarrow> (Inl e, t'')
           | (Inr bs, t'') \<Rightarrow> (Inr (b # bs), t'')))"

subsection \<open>The no-improvement criterion as the specification words it\<close>

text \<open>
  "Tracks \<open>best_cost\<close> (initially \<open>+\<infinity>\<close>)": the best cost after a sequence of calls,
  \<open>None\<close> standing for \<open>+\<infinity>\<close>; a call improves when its cost is below the tracked
  best by more than epsilon, in the arithmetic of the real numbers.
\<close>

fun spec_best :: "gol_type \<Rightarrow> gol_type option \<Rightarrow> gol_type list \<Rightarrow> gol_type option" where
  "spec_best eps best [] = best"
| "spec_best eps best (c # cs) =
     spec_best eps (case best of None \<Rightarrow> Some c
                    | Some b \<Rightarrow> if c < b - eps then Some c else Some b) cs"

text \<open>For each call of a sequence, whether it improved on the best tracked before it.\<close>

fun spec_improving :: "gol_type \<Rightarrow> gol_type option \<Rightarrow> gol_type list \<Rightarrow> bool list" where
  "spec_improving eps best [] = []"
| "spec_improving eps best (c # cs) =
     (case best of None \<Rightarrow> True | Some b \<Rightarrow> c < b - eps) # spec_improving eps (spec_best eps best [c]) cs"

text \<open>
  "Returns true iff max consecutive invocations have not seen cost improve by more than
  epsilon": at least \<open>max\<close> calls were made and none of the latest \<open>max\<close> of them, the
  current one included, improved.
\<close>

definition spec_noimprove_stop :: "int \<Rightarrow> gol_type \<Rightarrow> gol_type list \<Rightarrow> bool" where
  "spec_noimprove_stop mx eps costs =
     (nat mx \<le> length costs \<and>
      list_all Not (drop (length costs - nat mx) (spec_improving eps None costs)))"

subsection \<open>The no-improvement criterion, amended\<close>

text \<open>
  The best cost tracked after a sequence of calls, from a given best cost on: a call
  improves when its cost is below the rounded difference of the best cost and epsilon,
  and then its cost becomes the best one.
\<close>

fun tracked_best :: "double_arith \<Rightarrow> gol_type \<Rightarrow> gol_type \<Rightarrow> gol_type list \<Rightarrow> gol_type" where
  "tracked_best ar eps best [] = best"
| "tracked_best ar eps best (c # cs) =
     tracked_best ar eps (if c < dsub ar best eps then c else best) cs"

text \<open>For each call of a sequence, whether it improved on the best tracked before it.\<close>

fun improving :: "double_arith \<Rightarrow> gol_type \<Rightarrow> gol_type \<Rightarrow> gol_type list \<Rightarrow> bool list" where
  "improving ar eps best [] = []"
| "improving ar eps best (c # cs) =
     (c < dsub ar best eps) # improving ar eps (if c < dsub ar best eps then c else best) cs"

text \<open>
  The run of the latest call begins with the latest improving call, or with the first
  call if none improved. \<open>run_before\<close> counts the calls of the run before the latest call,
  from the improvement flags of all calls so far; \<open>run_length\<close> counts all calls of the
  run.
\<close>

definition run_before :: "bool list \<Rightarrow> nat" where
  "run_before flags =
     (if True \<in> set flags then length (takeWhile Not (rev flags)) else length flags - 1)"

definition run_length :: "bool list \<Rightarrow> nat" where
  "run_length flags =
     (if True \<in> set flags then Suc (length (takeWhile Not (rev flags))) else length flags)"

text \<open>
  A call returns true iff at least \<open>max\<close> calls of its run came before it: the latest
  improvement, or the construction if nothing improved, lies \<open>max\<close> calls or more back.
\<close>

definition noimprove_stops :: "int \<Rightarrow> bool list \<Rightarrow> bool" where
  "noimprove_stops mx flags = (mx \<le> int (run_before flags))"

text \<open>
  The arithmetic of the machine on the differences of a concrete run with
  \<open>epsilon = 3 / 2 ^ 55\<close>. \<open>1 - 3 / 2 ^ 55\<close> is no double: it lies between the neighbouring
  doubles \<open>1 - 1 / 2 ^ 53\<close> and \<open>1\<close>, nearer to the first, to which the machine rounds it.
  The largest double less \<open>3 / 2 ^ 55\<close> is rounded to the largest double. No other sum or
  difference occurs in the run; they are left exact.
\<close>

definition rounding_arith :: double_arith where
  "rounding_arith =
     \<lparr> dadd = (\<lambda>a b. a + b),
       dsub = (\<lambda>a b. if a = 1 \<and> b = 3 / 2 ^ 55 then 1 - 1 / 2 ^ 53
                     else if a = gol_type_max \<and> b = 3 / 2 ^ 55 then gol_type_max
                     else a - b) \<rparr>"

section \<open>The permutation problem skeleton (model.hh)\<close>

text \<open>
  The signature of the pure virtual \<^verbatim>\<open>evaluate_swap(int i, int j) const\<close> and
  \<^verbatim>\<open>compute_cost() const\<close>: functions of the object they are called on.
\<close>

type_synonym evaluate_swap_fn = "permutation_problem \<Rightarrow> int \<Rightarrow> int \<Rightarrow> gol_type"

type_synonym compute_cost_fn = "permutation_problem \<Rightarrow> gol_type"

text \<open>
  \<^verbatim>\<open>permutation_problem(int n) : pi_m(n), cost_m(0.0)\<close> followed by
  \<^verbatim>\<open>std::generate(pi_m.begin(), pi_m.end(), sequence(0))\<close>. A negative \<open>n\<close> converts to
  a size no vector can have and the vector's constructor throws.
\<close>

definition permutation_problem_new :: "int \<Rightarrow> error + permutation_problem" where
  "permutation_problem_new n =
     (if n < 0 then Inl LengthError else Inr \<lparr> pi_m = [0..n - 1], cost_m = 0 \<rparr>)"

text \<open>\<^verbatim>\<open>size()\<close>, \<^verbatim>\<open>cost_function()\<close> and \<^verbatim>\<open>update_cost()\<close>.\<close>

definition size_pp :: "permutation_problem \<Rightarrow> int" where
  "size_pp p = int (length (pi_m p))"

definition cost_function :: "permutation_problem \<Rightarrow> gol_type" where
  "cost_function p = cost_m p"

definition update_cost :: "compute_cost_fn \<Rightarrow> permutation_problem \<Rightarrow> permutation_problem" where
  "update_cost compute_cost p = p \<lparr> cost_m := compute_cost p \<rparr>"

text \<open>
  \<^verbatim>\<open>apply_swap(int i, int j)\<close>: \<^verbatim>\<open>cost_m += evaluate_swap(i, j)\<close>, then
  \<^verbatim>\<open>std::swap(pi_m[i], pi_m[j])\<close>. The vector is indexed without a range check.
\<close>

definition apply_swap ::
  "evaluate_swap_fn \<Rightarrow> permutation_problem \<Rightarrow> int \<Rightarrow> int \<Rightarrow> error + permutation_problem" where
  "apply_swap evaluate_swap p i j =
     (let p1 = p \<lparr> cost_m := cost_m p + evaluate_swap p i j \<rparr> in
      if 0 \<le> i \<and> i < size_pp p1 \<and> 0 \<le> j \<and> j < size_pp p1
      then Inr (p1 \<lparr> pi_m := (pi_m p1) [nat i := pi_m p1 ! nat j, nat j := pi_m p1 ! nat i] \<rparr>)
      else Inl UndefinedBehaviour)"

text \<open>A finite sequence of \<^verbatim>\<open>apply_swap\<close> calls on one object, stopping at the first failure.\<close>

fun apply_swaps ::
  "evaluate_swap_fn \<Rightarrow> permutation_problem \<Rightarrow> (int \<times> int) list \<Rightarrow> error + permutation_problem"
  where
  "apply_swaps evaluate_swap p [] = Inr p"
| "apply_swaps evaluate_swap p ((i, j) # rest) =
     (case apply_swap evaluate_swap p i j of
        Inl e \<Rightarrow> Inl e
      | Inr p' \<Rightarrow> apply_swaps evaluate_swap p' rest)"

text \<open>
  \<^verbatim>\<open>copy_from(const copyable &other)\<close>: the \<^verbatim>\<open>dynamic_cast\<close> to
  \<^verbatim>\<open>const permutation_problem &\<close> throws before anything is assigned. The result is
  the exception, if any, and the object the call leaves behind.
\<close>

fun copy_from :: "permutation_problem \<Rightarrow> solution \<Rightarrow> error option \<times> permutation_problem" where
  "copy_from this (Permutation_problem o') =
     (None, this \<lparr> pi_m := pi_m o', cost_m := cost_m o' \<rparr>)"
| "copy_from this other = (Some BadCast, this)"

text \<open>
  \<^verbatim>\<open>perturbate(p, n, rng)\<close>. The random source is a parameter: \<open>int_range rng size\<close>
  is the draw \<^verbatim>\<open>int_range(rng, p.size())\<close> together with the generator after it. The
  inner \<^verbatim>\<open>while (p1 == p2)\<close> loop draws again for as long as the generator repeats
  \<open>p1\<close>, so it need not end.
\<close>

partial_function (option) perturbate_redraw ::
  "('r \<Rightarrow> int \<Rightarrow> int \<times> 'r) \<Rightarrow> int \<Rightarrow> int \<Rightarrow> int \<Rightarrow> 'r \<Rightarrow> (int \<times> 'r) option" where
  "perturbate_redraw int_range sz p1 p2 rng =
     (if p1 = p2
      then (case int_range rng sz of
              (p2', rng') \<Rightarrow> perturbate_redraw int_range sz p1 p2' rng')
      else Some (p2, rng))"

declare perturbate_redraw.simps [code]

fun perturbate ::
  "evaluate_swap_fn \<Rightarrow> ('r \<Rightarrow> int \<Rightarrow> int \<times> 'r) \<Rightarrow> permutation_problem \<Rightarrow> nat \<Rightarrow> 'r \<Rightarrow>
     ((error + permutation_problem) \<times> 'r) option" where
  "perturbate evaluate_swap int_range p 0 rng = Some (Inr p, rng)"
| "perturbate evaluate_swap int_range p (Suc n) rng =
     (case int_range rng (size_pp p) of
        (p1, rng1) \<Rightarrow>
          (case int_range rng1 (size_pp p) of
             (p2, rng2) \<Rightarrow>
               (case perturbate_redraw int_range (size_pp p) p1 p2 rng2 of
                  None \<Rightarrow> None
                | Some (p2', rng3) \<Rightarrow>
                    (case apply_swap evaluate_swap p p1 p2' of
                       Inl e \<Rightarrow> Some (Inl e, rng3)
                     | Inr p' \<Rightarrow> perturbate evaluate_swap int_range p' n rng3))))"

section \<open>Moves (model.hh)\<close>

text \<open>
  \<^verbatim>\<open>swap_elements\<close> and \<^verbatim>\<open>invert_subsequence\<close> with their members \<^verbatim>\<open>p1\<close> and \<^verbatim>\<open>p2\<close>.
\<close>

datatype move = Swap_elements int int | Invert_subsequence int int

text \<open>The constructors: \<^verbatim>\<open>swap_elements\<close> orders its arguments, \<^verbatim>\<open>invert_subsequence\<close> does not.\<close>

definition swap_elements :: "int \<Rightarrow> int \<Rightarrow> move" where
  "swap_elements from_i to_i = Swap_elements (min from_i to_i) (max from_i to_i)"

definition invert_subsequence :: "int \<Rightarrow> int \<Rightarrow> move" where
  "invert_subsequence from_i to_i = Invert_subsequence from_i to_i"

text \<open>
  The \<^verbatim>\<open>for (int ii(0); ii != top / 2; ++ii)\<close> loop of \<^verbatim>\<open>invert_subsequence::apply\<close>,
  with both \<^verbatim>\<open>assert\<close>s; \<open>sz\<close> and \<open>tp\<close> are the locals
  \<^verbatim>\<open>size\<close> and \<^verbatim>\<open>top\<close>. \<^verbatim>\<open>/\<close> and \<^verbatim>\<open>%\<close> on C++ integers truncate towards zero. The
  loop counts upwards until it meets \<open>top / 2\<close>, which it never does when that is
  negative.
\<close>

partial_function (option) invert_apply_loop ::
  "evaluate_swap_fn \<Rightarrow> int \<Rightarrow> int \<Rightarrow> int \<Rightarrow> int \<Rightarrow> int \<Rightarrow> permutation_problem \<Rightarrow>
     (error + permutation_problem) option" where
  "invert_apply_loop evaluate_swap p1 p2 sz tp ii sol =
     (if ii = tp sdiv 2 then Some (Inr sol)
      else if sz = 0 then Some (Inl UndefinedBehaviour)
      else
        (let from_i = (p1 + ii) smod sz; to_i = (sz + p2 - ii) smod sz in
         if \<not> (0 \<le> from_i \<and> from_i < sz) then Some (Inl AssertionFailed)
         else if \<not> (0 \<le> to_i \<and> to_i < sz) then Some (Inl AssertionFailed)
         else (case apply_swap evaluate_swap sol from_i to_i of
                 Inl e \<Rightarrow> Some (Inl e)
               | Inr sol' \<Rightarrow> invert_apply_loop evaluate_swap p1 p2 sz tp (ii + 1) sol')))"

declare invert_apply_loop.simps [code]

text \<open>The same loop in \<^verbatim>\<open>invert_subsequence::evaluate\<close>, summing into \<^verbatim>\<open>eval\<close>.\<close>

partial_function (option) invert_evaluate_loop ::
  "evaluate_swap_fn \<Rightarrow> int \<Rightarrow> int \<Rightarrow> int \<Rightarrow> int \<Rightarrow> int \<Rightarrow> permutation_problem \<Rightarrow> gol_type \<Rightarrow>
     (error + gol_type) option" where
  "invert_evaluate_loop evaluate_swap p1 p2 sz tp ii sol eval =
     (if ii = tp sdiv 2 then Some (Inr eval)
      else if sz = 0 then Some (Inl UndefinedBehaviour)
      else
        (let from_i = (p1 + ii) smod sz; to_i = (sz + p2 - ii) smod sz in
         if \<not> (0 \<le> from_i \<and> from_i < sz) then Some (Inl AssertionFailed)
         else if \<not> (0 \<le> to_i \<and> to_i < sz) then Some (Inl AssertionFailed)
         else invert_evaluate_loop evaluate_swap p1 p2 sz tp (ii + 1) sol
                (eval + evaluate_swap sol from_i to_i)))"

declare invert_evaluate_loop.simps [code]

text \<open>\<^verbatim>\<open>int top = p1 < p2 ? (p2 - p1 + 1) : (size + p2 - p1 + 1);\<close>\<close>

definition invert_top :: "int \<Rightarrow> int \<Rightarrow> int \<Rightarrow> int" where
  "invert_top sz p1 p2 = (if p1 < p2 then p2 - p1 + 1 else sz + p2 - p1 + 1)"

text \<open>
  \<^verbatim>\<open>evaluate\<close> and \<^verbatim>\<open>apply\<close> of both move classes. All four begin with a
  \<^verbatim>\<open>static_cast\<close> of the solution to \<^verbatim>\<open>permutation_problem &\<close>, which checks nothing.
  \<open>None\<close> is a call that does not return.
\<close>

fun move_evaluate :: "evaluate_swap_fn \<Rightarrow> move \<Rightarrow> solution \<Rightarrow> (error + gol_type) option" where
  "move_evaluate evaluate_swap (Swap_elements p1 p2) (Permutation_problem sol) =
     Some (Inr (cost_function sol + evaluate_swap sol p1 p2))"
| "move_evaluate evaluate_swap (Invert_subsequence p1 p2) (Permutation_problem sol) =
     invert_evaluate_loop evaluate_swap p1 p2 (size_pp sol)
       (invert_top (size_pp sol) p1 p2) 0 sol 0"
| "move_evaluate evaluate_swap m s = Some (Inl UndefinedBehaviour)"

fun move_apply :: "evaluate_swap_fn \<Rightarrow> move \<Rightarrow> solution \<Rightarrow> (error + solution) option" where
  "move_apply evaluate_swap (Swap_elements p1 p2) (Permutation_problem sol) =
     Some (map_sum id Permutation_problem (apply_swap evaluate_swap sol p1 p2))"
| "move_apply evaluate_swap (Invert_subsequence p1 p2) (Permutation_problem sol) =
     map_option (map_sum id Permutation_problem)
       (invert_apply_loop evaluate_swap p1 p2 (size_pp sol)
          (invert_top (size_pp sol) p1 p2) 0 sol)"
| "move_apply evaluate_swap m s = Some (Inl UndefinedBehaviour)"

subsection \<open>A user's permutation problem\<close>

text \<open>
  The library leaves \<^verbatim>\<open>compute_cost\<close> and \<^verbatim>\<open>evaluate_swap\<close> to the user. The instance
  used for the concrete runs below is the one of the specification's scenario S1: the
  cost is the sum over \<open>i\<close> of \<open>pi[i] * i\<close>, and \<^verbatim>\<open>evaluate_swap\<close> is the difference the
  swap makes to it.
\<close>

definition s1_compute_cost :: compute_cost_fn where
  "s1_compute_cost p = real_of_int (\<Sum>i \<leftarrow> [0..<length (pi_m p)]. pi_m p ! i * int i)"

definition s1_evaluate_swap :: evaluate_swap_fn where
  "s1_evaluate_swap p i j =
     s1_compute_cost (p \<lparr> pi_m := (pi_m p) [nat i := pi_m p ! nat j, nat j := pi_m p ! nat i] \<rparr>)
       - s1_compute_cost p"

section \<open>Sequences of swaps\<close>

text \<open>Every pair of a list of swaps has both indices in \<open>0 .. n - 1\<close>.\<close>

definition swaps_in_range :: "int \<Rightarrow> (int \<times> int) list \<Rightarrow> bool" where
  "swaps_in_range n swaps = list_all (\<lambda>(i, j). 0 \<le> i \<and> i < n \<and> 0 \<le> j \<and> j < n) swaps"

text \<open>The calls \<^verbatim>\<open>sol.apply_swap(from, to)\<close> of the inversion loop from counter \<open>ii\<close> on, for
  a non-negative \<open>top\<close>.\<close>

definition invert_swaps :: "int \<Rightarrow> int \<Rightarrow> int \<Rightarrow> int \<Rightarrow> int \<Rightarrow> (int \<times> int) list" where
  "invert_swaps p1 p2 sz tp ii =
     map (\<lambda>k. ((p1 + k) mod sz, (sz + p2 - k) mod sz)) [ii..tp div 2 - 1]"

subsection \<open>The inversion as the specification words it\<close>

text \<open>
  "\<open>length = (p2 - p1 + 1) mod n\<close>, using \<open>n\<close> if that mod is 0", with the mathematical
  \<open>mod\<close>.
\<close>

definition spec_length :: "int \<Rightarrow> int \<Rightarrow> int \<Rightarrow> int" where
  "spec_length n p1 p2 = (if (p2 - p1 + 1) mod n = 0 then n else (p2 - p1 + 1) mod n)"

text \<open>
  "Reverses the circular subsequence from index p1 to p2 (inclusive) with wrap-around":
  the position at offset \<open>k\<close> from \<open>p1\<close> along the circle, \<open>k\<close> below the length, receives
  the entry at offset \<open>length - 1 - k\<close>; the other positions keep theirs.
\<close>

definition spec_invert :: "int list \<Rightarrow> int \<Rightarrow> int \<Rightarrow> int list" where
  "spec_invert xs p1 p2 =
     (let n = int (length xs); len = spec_length n p1 p2 in
      map (\<lambda>i. if (i - p1) mod n < len
                then xs ! nat ((p1 + (len - 1 - (i - p1) mod n)) mod n)
                else xs ! nat i) [0..n - 1])"

text \<open>The permutation after the first \<open>m\<close> swaps of the loop.\<close>

definition invert_partial :: "int list \<Rightarrow> int \<Rightarrow> int \<Rightarrow> int \<Rightarrow> int list" where
  "invert_partial xs p1 len m =
     (let n = int (length xs) in
      map (\<lambda>i. if (i - p1) mod n < len \<and> ((i - p1) mod n < m \<or> len - m \<le> (i - p1) mod n)
                then xs ! nat ((p1 + (len - 1 - (i - p1) mod n)) mod n)
                else xs ! nat i) [0..n - 1])"

section \<open>Neighborhoods (model.hh)\<close>

text \<open>
  The move queue \<^verbatim>\<open>moves_m\<close> of a \<^verbatim>\<open>move_manager\<close> is a list of moves. The constructor
  \<^verbatim>\<open>swap_neighborhood(r, moves)\<close> pushes \<^verbatim>\<open>moves\<close> times \<^verbatim>\<open>new swap_elements(0, 0)\<close>; its
  loop counter is unsigned and counts up to \<^verbatim>\<open>moves\<close>.
\<close>

definition swap_neighborhood :: "nat \<Rightarrow> move list" where
  "swap_neighborhood moves = replicate moves (swap_elements 0 0)"

text \<open>
  \<^verbatim>\<open>swap_full_neighborhood(int size)\<close>: the inner loop
  \<^verbatim>\<open>for (int jj(ii + 1); jj != size; ++jj)\<close> and the outer loop
  \<^verbatim>\<open>for (int ii(0); ii != size - 1; ++ii)\<close>. Both run until the counter meets its
  bound and so need not end; \<open>None\<close> is a constructor that does not return. No
  statement of the constructor looks at \<^verbatim>\<open>size\<close> otherwise.
\<close>

partial_function (option) swap_full_inner :: "int \<Rightarrow> int \<Rightarrow> int \<Rightarrow> move list \<Rightarrow> move list option"
  where
  "swap_full_inner sz ii jj moves_m =
     (if jj = sz then Some moves_m
      else swap_full_inner sz ii (jj + 1) (moves_m @ [swap_elements ii jj]))"

declare swap_full_inner.simps [code]

partial_function (option) swap_full_outer :: "int \<Rightarrow> int \<Rightarrow> move list \<Rightarrow> move list option"
  where
  "swap_full_outer sz ii moves_m =
     (if ii = sz - 1 then Some moves_m
      else (case swap_full_inner sz ii (ii + 1) moves_m of
              None \<Rightarrow> None
            | Some moves' \<Rightarrow> swap_full_outer sz (ii + 1) moves'))"

declare swap_full_outer.simps [code]

definition swap_full_neighborhood :: "int \<Rightarrow> move list option" where
  "swap_full_neighborhood sz = swap_full_outer sz 0 []"

text \<open>
  \<^verbatim>\<open>invert_full_neighborhood(int size)\<close>: both loops run from 0 until the counter meets
  \<^verbatim>\<open>size\<close>, and a move is pushed \<^verbatim>\<open>if (ii != jj)\<close>.
\<close>

partial_function (option) invert_full_inner ::
  "int \<Rightarrow> int \<Rightarrow> int \<Rightarrow> move list \<Rightarrow> move list option" where
  "invert_full_inner sz ii jj moves_m =
     (if jj = sz then Some moves_m
      else invert_full_inner sz ii (jj + 1)
             (if ii \<noteq> jj then moves_m @ [invert_subsequence ii jj] else moves_m))"

declare invert_full_inner.simps [code]

partial_function (option) invert_full_outer :: "int \<Rightarrow> int \<Rightarrow> move list \<Rightarrow> move list option"
  where
  "invert_full_outer sz ii moves_m =
     (if ii = sz then Some moves_m
      else (case invert_full_inner sz ii 0 moves_m of
              None \<Rightarrow> None
            | Some moves' \<Rightarrow> invert_full_outer sz (ii + 1) moves'))"

declare invert_full_outer.simps [code]

definition invert_full_neighborhood :: "int \<Rightarrow> move list option" where
  "invert_full_neighborhood sz = invert_full_outer sz 0 []"

section \<open>Cooling schedules (simulated-annealing.hh)\<close>

text \<open>
  \<^verbatim>\<open>exponential_cooling\<close> with its member \<^verbatim>\<open>factor_m\<close> and \<^verbatim>\<open>linear_cooling\<close> with its
  member \<^verbatim>\<open>decrement_m\<close>.
\<close>

datatype cooling_schedule = Exponential_cooling real | Linear_cooling real

text \<open>The constructors, each with its one check.\<close>

definition exponential_cooling :: "real \<Rightarrow> error + cooling_schedule" where
  "exponential_cooling alpha =
     (if alpha \<ge> 1 then Inl (RuntimeError ''alpha must be < 1'')
      else Inr (Exponential_cooling alpha))"

definition linear_cooling :: "real \<Rightarrow> error + cooling_schedule" where
  "linear_cooling delta =
     (if delta \<le> 0 then Inl (RuntimeError ''delta must be > 0'')
      else Inr (Linear_cooling delta))"


section \<open>Simulated annealing (simulated-annealing.hh)\<close>

text \<open>
  Modelled from the spec: the values of \<^verbatim>\<open>abstract_search::step_m\<close> that \<^verbatim>\<open>search()\<close>
  assigns. The base class \<^verbatim>\<open>abstract_search\<close> is declared in a header that is not part
  of the sources at hand.
\<close>

datatype step = MOVE_MADE | IMPROVEMENT_MADE

text \<open>
  \<^verbatim>\<open>simulated_annealing<move_manager_type>::search()\<close> reaches everything but its own
  members through references to abstract classes and through its template parameter.
  These calls are the fields of \<open>sa_ops\<close>:
  \<^item> \<open>terminate\<close> is \<^verbatim>\<open>termination_criteria_m(working_solution_m)\<close>, returning the flag and
    the chain after the call;
  \<^item> \<open>cost_of\<close> is \<^verbatim>\<open>cost_function()\<close> of the working solution;
  \<^item> \<open>refresh\<close> is \<^verbatim>\<open>moves_m.refresh(working_solution_m)\<close> and \<open>moves_of\<close> the sequence
    from \<^verbatim>\<open>moves_m.begin()\<close> to \<^verbatim>\<open>moves_m.end()\<close>;
  \<^item> \<open>evaluate_move\<close> and \<open>apply_move\<close> are the virtual functions \<^verbatim>\<open>evaluate\<close> and
    \<^verbatim>\<open>apply\<close> of \<^verbatim>\<open>move\<close>;
  \<^item> \<open>accept\<close> is \<^verbatim>\<open>solution_recorder_m.accept(working_solution_m)\<close>, returning the flag
    and the recorder after the call;
  \<^item> \<open>cooling\<close> is \<^verbatim>\<open>cooling_schedule_m(current_temp_m, working_solution_m)\<close>;
  \<^item> \<open>gen\<close> is \<^verbatim>\<open>gen()\<close>, the next draw of the uniform generator on \<open>[0, 1)\<close> and the
    generator after it.
  The model follows the runs in which each of these calls returns; an exception thrown
  by one of them leaves \<^verbatim>\<open>search()\<close> at once.
\<close>

record ('sol, 'mv, 'mm, 'rec, 'tc, 'rng) sa_ops =
  terminate :: "'tc \<Rightarrow> 'sol \<Rightarrow> bool \<times> 'tc"
  cost_of :: "'sol \<Rightarrow> gol_type"
  refresh :: "'mm \<Rightarrow> 'sol \<Rightarrow> 'mm"
  moves_of :: "'mm \<Rightarrow> 'mv list"
  evaluate_move :: "'mv \<Rightarrow> 'sol \<Rightarrow> gol_type"
  apply_move :: "'mv \<Rightarrow> 'sol \<Rightarrow> 'sol"
  accept :: "'rec \<Rightarrow> 'sol \<Rightarrow> bool \<times> 'rec"
  cooling :: "real \<Rightarrow> 'sol \<Rightarrow> real"
  gen :: "'rng \<Rightarrow> real \<times> 'rng"

text \<open>
  The members of the search object. \<open>current_move_m\<close> is the position of the iterator
  stored by \<^verbatim>\<open>current_move_m = movit\<close>, \<open>notified\<close> lists the values of \<^verbatim>\<open>step_m\<close> at the
  calls of \<^verbatim>\<open>notify()\<close>, oldest first, and \<open>gen_m\<close> is the generator \<^verbatim>\<open>gen\<close>.
\<close>

record ('sol, 'mm, 'rec, 'tc, 'rng) sa_state =
  working_solution_m :: 'sol
  solution_recorder_m :: 'rec
  moves_m :: 'mm
  current_move_m :: "nat option"
  step_m :: "step option"
  notified :: "step list"
  termination_criteria_m :: 'tc
  starting_temp_m :: real
  stop_temp_m :: real
  current_temp_m :: real
  K_m :: real
  gen_m :: 'rng

text \<open>
  The comparison \<^verbatim>\<open>gen() < exp(-delta / (K_m * current_temp_m))\<close> for the draw \<open>u\<close>. When
  the product is not zero the quotient and the exponential are those of the real
  numbers. When it is zero the doubles give: for \<open>delta = 0\<close> the quotient \<open>0 / 0\<close>, which is
  NaN, and every comparison with NaN is false; otherwise an infinite quotient with the
  sign of \<open>-delta\<close>, reversed if the zero product is the negative zero, and \<^verbatim>\<open>exp\<close> gives
  \<open>+\<infinity>\<close> for \<open>+\<infinity>\<close>, above every draw, and \<open>0\<close> for \<open>-\<infinity>\<close>. The real number \<open>0\<close> stands for the
  double \<open>+0.0\<close>, so a zero product is the negative zero exactly when one of its factors
  is negative.
\<close>

definition draw_below_exp :: "real \<Rightarrow> real \<Rightarrow> real \<Rightarrow> real \<Rightarrow> bool" where
  "draw_below_exp u delta K T =
     (if K * T \<noteq> 0 then u < exp (- delta / (K * T))
      else if delta = 0 then False
      else if (0 < delta) = (K < 0 \<or> T < 0) then True
      else u < 0)"

text \<open>
  The test \<^verbatim>\<open>delta < 0 || gen() < exp(-delta / (K_m * current_temp_m))\<close> for a move, with
  \<^verbatim>\<open>cost = (*movit)->evaluate(working_solution_m)\<close> and \<^verbatim>\<open>delta = cost - actual_cost\<close>:
  the outcome and the generator afterwards. \<^verbatim>\<open>||\<close> draws only if \<open>delta\<close> is not
  negative.
\<close>

definition sa_test ::
  "('sol, 'mv, 'mm, 'rec, 'tc, 'rng) sa_ops \<Rightarrow> gol_type \<Rightarrow> 'mv \<Rightarrow>
     ('sol, 'mm, 'rec, 'tc, 'rng) sa_state \<Rightarrow> bool \<times> 'rng" where
  "sa_test ops actual_cost m st =
     (let cost = evaluate_move ops m (working_solution_m st);
          delta = cost - actual_cost in
      if delta < 0 then (True, gen_m st)
      else (case gen ops (gen_m st) of
              (u, rng') \<Rightarrow> (draw_below_exp u delta (K_m st) (current_temp_m st), rng')))"

text \<open>The statements of the accepting branch, up to its \<^verbatim>\<open>break\<close>.\<close>

definition sa_accepted ::
  "('sol, 'mv, 'mm, 'rec, 'tc, 'rng) sa_ops \<Rightarrow> nat \<Rightarrow> 'mv \<Rightarrow>
     ('sol, 'mm, 'rec, 'tc, 'rng) sa_state \<Rightarrow> ('sol, 'mm, 'rec, 'tc, 'rng) sa_state" where
  "sa_accepted ops movit m st =
     (let st1 = st \<lparr> working_solution_m := apply_move ops m (working_solution_m st),
                     current_move_m := Some movit \<rparr> in
      case accept ops (solution_recorder_m st1) (working_solution_m st1) of
        (improved, recorder') \<Rightarrow>
          (let st2 = st1 \<lparr> solution_recorder_m := recorder' \<rparr>;
               st3 = (if improved
                      then st2 \<lparr> step_m := Some IMPROVEMENT_MADE,
                                 notified := notified st2 @ [IMPROVEMENT_MADE] \<rparr>
                      else st2) in
           st3 \<lparr> step_m := Some MOVE_MADE, notified := notified st3 @ [MOVE_MADE] \<rparr>))"

text \<open>
  The \<^verbatim>\<open>for\<close> loop over the moves from iterator position \<open>movit\<close> on; the flag tells
  whether the loop was left by \<^verbatim>\<open>break\<close>.
\<close>

fun sa_scan ::
  "('sol, 'mv, 'mm, 'rec, 'tc, 'rng) sa_ops \<Rightarrow> gol_type \<Rightarrow> nat \<Rightarrow> 'mv list \<Rightarrow>
     ('sol, 'mm, 'rec, 'tc, 'rng) sa_state \<Rightarrow> bool \<times> ('sol, 'mm, 'rec, 'tc, 'rng) sa_state"
  where
  "sa_scan ops actual_cost movit [] st = (False, st)"
| "sa_scan ops actual_cost movit (m # rest) st =
     (case sa_test ops actual_cost m st of
        (accepted, rng') \<Rightarrow>
          if accepted then (True, sa_accepted ops movit m (st \<lparr> gen_m := rng' \<rparr>))
          else sa_scan ops actual_cost (Suc movit) rest (st \<lparr> gen_m := rng' \<rparr>))"

text \<open>
  The body of the \<^verbatim>\<open>while\<close> loop. The local \<^verbatim>\<open>best_cost\<close> is assigned and never read, and
  has no counterpart here.
\<close>

definition sa_body ::
  "('sol, 'mv, 'mm, 'rec, 'tc, 'rng) sa_ops \<Rightarrow>
     ('sol, 'mm, 'rec, 'tc, 'rng) sa_state \<Rightarrow> ('sol, 'mm, 'rec, 'tc, 'rng) sa_state" where
  "sa_body ops st =
     (let actual_cost = cost_of ops (working_solution_m st);
          st1 = st \<lparr> moves_m := refresh ops (moves_m st) (working_solution_m st) \<rparr>;
          st2 = snd (sa_scan ops actual_cost 0 (moves_of ops (moves_m st1)) st1) in
      st2 \<lparr> current_temp_m := cooling ops (current_temp_m st2) (working_solution_m st2) \<rparr>)"










section \<open>Properties of the termination criteria\<close>

lemma tc_calls_iteration_alone:
  "tc_calls ar (Iteration None mx it) sols =
     (Inr (map (\<lambda>k. it \<le> int k) [0..<length sols]),
      Iteration None mx (if it \<le> 0 then it else max 0 (it - int (length sols))))"
proof (induction sols arbitrary: it)
  case Nil
  then show ?case by simp
next
  case (Cons fs rest)
  have shift: "map (\<lambda>k. it \<le> int k) [0..<Suc (length rest)] =
               (it \<le> 0) # map (\<lambda>k. it - 1 \<le> int k) [0..<length rest]"
    by (auto simp add: upt_conv_Cons map_Suc_upt [symmetric] simp del: upt_Suc)
  show ?case
  proof (cases "it \<le> 0")
    case True
    then have "map (\<lambda>k. it \<le> int k) [0..<length rest] =
               map (\<lambda>k. it - 1 \<le> int k) [0..<length rest]"
      by auto
    with True show ?thesis using Cons.IH [of it] shift by simp
  next
    case False
    then show ?thesis using Cons.IH [of "it - 1"] shift by auto
  qed
qed

text \<open>
  C9. An \<^verbatim>\<open>iteration_termination_criteria\<close> built with \<open>max \<ge> 0\<close> and no successor,
  called once for each element of any list of solutions: the call number \<open>k + 1\<close>
  returns \<^verbatim>\<open>true\<close> exactly when \<open>max < k + 1\<close>, so the first \<open>max\<close> calls return
  \<^verbatim>\<open>false\<close>, call \<open>max + 1\<close> is the first to return \<^verbatim>\<open>true\<close> and so does every later
  call; the counter is then \<open>max - n\<close> cut off at zero, and \<^verbatim>\<open>reset()\<close> gives back the
  node as constructed.
\<close>

theorem iteration_cap_alone:
  assumes "0 \<le> mx"
  shows "tc_calls ar (iteration_termination_criteria mx) sols =
           (Inr (map (\<lambda>k. mx < int k + 1) [0..<length sols]),
            Iteration None mx (max 0 (mx - int (length sols))))
         \<and> tc_reset (snd (tc_calls ar (iteration_termination_criteria mx) sols)) =
             iteration_termination_criteria mx"
proof -
  have "(\<lambda>k. mx \<le> int k) = (\<lambda>k. mx < int k + 1)" by auto
  then show ?thesis
    using assms unfolding iteration_termination_criteria_def tc_calls_iteration_alone
    by auto
qed

theorem iteration_cap_alone_witness:
  "(0::int) \<le> 2 \<and>
   tc_calls exact_arith (iteration_termination_criteria 2)
     [Feasible_solution, Feasible_solution, Feasible_solution, Feasible_solution] =
     (Inr [False, False, True, True], Iteration None 2 0)
   \<and> tc_reset (Iteration None 2 0) = Iteration None 2 2"
  using iteration_cap_alone
          [of 2 exact_arith
              "[Feasible_solution, Feasible_solution, Feasible_solution, Feasible_solution]"]
  by (simp add: iteration_termination_criteria_def upt_conv_Cons)

lemma tc_calls_append:
  "tc_calls ar t (xs @ ys) =
     (case tc_calls ar t xs of
        (Inl e, t') \<Rightarrow> (Inl e, t')
      | (Inr bs, t') \<Rightarrow>
          (case tc_calls ar t' ys of
             (Inl e, t'') \<Rightarrow> (Inl e, t'')
           | (Inr cs, t'') \<Rightarrow> (Inr (bs @ cs), t'')))"
  by (induction xs arbitrary: t) (auto split: prod.splits sum.splits)

lemma tracked_best_append:
  "tracked_best ar eps b (xs @ ys) = tracked_best ar eps (tracked_best ar eps b xs) ys"
  by (induction xs arbitrary: b) auto

lemma improving_append:
  "improving ar eps b (xs @ ys) =
     improving ar eps b xs @ improving ar eps (tracked_best ar eps b xs) ys"
  by (induction xs arbitrary: b) auto

lemma length_improving [simp]: "length (improving ar eps b cs) = length cs"
  by (induction cs arbitrary: b) auto

lemma run_before_snoc: "run_before (flags @ [b]) = (if b then 0 else run_length flags)"
  by (simp add: run_before_def run_length_def)

lemma run_length_snoc: "run_length (flags @ [b]) = (if b then 1 else Suc (run_length flags))"
  by (simp add: run_length_def)

lemma noimprove_alone_run:
  "\<exists>ni. tc_calls ar (Noimprove None (noimprove_init mx eps)) (map Evaluable_solution costs) =
          (Inr (map (\<lambda>k. noimprove_stops mx (improving ar eps gol_type_max (take (Suc k) costs)))
                  [0..<length costs]),
           Noimprove None ni)
        \<and> best_cost_m ni = tracked_best ar eps gol_type_max costs
        \<and> iterations_left_m ni =
            (if mx \<le> 0 then mx
             else mx - min mx (int (run_length (improving ar eps gol_type_max costs))))
        \<and> max_noimprove_m ni = mx \<and> epsilon_m ni = eps"
proof (induction costs rule: rev_induct)
  case Nil
  show ?case by (simp add: noimprove_init_def run_length_def)
next
  case (snoc c cs)
  let ?flags = "improving ar eps gol_type_max cs"
  from snoc obtain ni where
    run: "tc_calls ar (Noimprove None (noimprove_init mx eps)) (map Evaluable_solution cs) =
          (Inr (map (\<lambda>k. noimprove_stops mx (improving ar eps gol_type_max (take (Suc k) cs)))
                  [0..<length cs]),
           Noimprove None ni)"
    and best: "best_cost_m ni = tracked_best ar eps gol_type_max cs"
    and left: "iterations_left_m ni =
                 (if mx \<le> 0 then mx else mx - min mx (int (run_length ?flags)))"
    and mx: "max_noimprove_m ni = mx" and eps: "epsilon_m ni = eps"
    by blast
  let ?imp = "c < dsub ar (best_cost_m ni) eps"
  let ?ni1 = "noimprove_update ar ni c"
  let ?stop = "iterations_left_m ?ni1 \<le> 0"
  let ?ni2 = "if ?stop then ?ni1
              else ?ni1 \<lparr> total_iterations_m := total_iterations_m ?ni1 + 1,
                           iterations_left_m := iterations_left_m ?ni1 - 1 \<rparr>"
  have call: "tc_call ar (Noimprove None ni) (Evaluable_solution c) =
                (Inr ?stop, Noimprove None ?ni2)"
    by (simp add: Let_def)
  have flags': "improving ar eps gol_type_max (cs @ [c]) = ?flags @ [?imp]"
    by (simp add: improving_append best)
  have stop: "?stop = noimprove_stops mx (improving ar eps gol_type_max (cs @ [c]))"
    unfolding noimprove_stops_def flags' run_before_snoc
    using left mx eps by (auto simp: noimprove_update_def)
  have flags: "map (\<lambda>k. noimprove_stops mx (improving ar eps gol_type_max (take (Suc k) (cs @ [c]))))
                 [0..<length (cs @ [c])] =
               map (\<lambda>k. noimprove_stops mx (improving ar eps gol_type_max (take (Suc k) cs)))
                 [0..<length cs] @ [noimprove_stops mx (improving ar eps gol_type_max (cs @ [c]))]"
    by simp
  have best': "best_cost_m ?ni2 = tracked_best ar eps gol_type_max (cs @ [c])"
    using best eps by (simp add: tracked_best_append noimprove_update_def)
  have left': "iterations_left_m ?ni2 =
                 (if mx \<le> 0 then mx
                  else mx - min mx (int (run_length (improving ar eps gol_type_max (cs @ [c])))))"
    unfolding flags' run_length_snoc
    using left mx eps by (auto simp: noimprove_update_def)
  have keep: "max_noimprove_m ?ni2 = mx \<and> epsilon_m ?ni2 = eps"
    using mx eps by (simp add: noimprove_update_def)
  have "tc_calls ar (Noimprove None (noimprove_init mx eps))
          (map Evaluable_solution (cs @ [c])) =
        (Inr (map (\<lambda>k. noimprove_stops mx (improving ar eps gol_type_max (take (Suc k) cs)))
                [0..<length cs] @ [?stop]),
         Noimprove None ?ni2)"
    using tc_calls_append [of ar "Noimprove None (noimprove_init mx eps)"
            "map Evaluable_solution cs" "[Evaluable_solution c]"]
    unfolding run using call by simp
  then show ?case
    unfolding flags stop [symmetric] using best' left' keep by blast
qed

lemma tc_call_noimprove_alone_cost:
  assumes "evaluable_cost_function fs = evaluable_cost_function fs'"
  shows "tc_call ar (Noimprove None ni) fs = tc_call ar (Noimprove None ni) fs'"
  using assms by (simp add: Let_def split: sum.splits)

lemma tc_call_noimprove_alone_shape:
  "\<exists>ni'. snd (tc_call ar (Noimprove None ni) fs) = Noimprove None ni'"
  by (simp add: Let_def split: sum.splits)

lemma tc_calls_noimprove_alone_cost:
  assumes "map evaluable_cost_function sols = map evaluable_cost_function sols'"
  shows "tc_calls ar (Noimprove None ni) sols = tc_calls ar (Noimprove None ni) sols'"
  using assms
proof (induction sols arbitrary: sols' ni)
  case Nil
  then show ?case by simp
next
  case (Cons fs rest)
  then obtain fs' rest' where s: "sols' = fs' # rest'"
    "evaluable_cost_function fs = evaluable_cost_function fs'"
    "map evaluable_cost_function rest = map evaluable_cost_function rest'"
    by (cases sols') auto
  have call: "tc_call ar (Noimprove None ni) fs = tc_call ar (Noimprove None ni) fs'"
    by (rule tc_call_noimprove_alone_cost [OF s(2)])
  obtain r t where rt: "tc_call ar (Noimprove None ni) fs' = (r, t)"
    by (cases "tc_call ar (Noimprove None ni) fs'")
  with tc_call_noimprove_alone_shape [of ar ni fs'] obtain ni' where t: "t = Noimprove None ni'"
    by auto
  have "tc_calls ar (Noimprove None ni') rest = tc_calls ar (Noimprove None ni') rest'"
    by (rule Cons.IH [OF s(3)])
  then show ?case
    unfolding s(1) using call rt t by (simp del: tc_call.simps split: sum.splits)
qed

text \<open>
  C8 as stated fails twice. With \<open>max = 1\<close>, \<open>epsilon = 2 ^ 1023\<close> and the costs \<open>2 ^ 1023\<close> and
  \<open>2 ^ 1022\<close>, every difference the code forms being a double, the two calls return
  \<^verbatim>\<open>false\<close> and \<^verbatim>\<open>false\<close>: the best cost starts at \<^verbatim>\<open>numeric_limits::max()\<close>, on which the
  first cost does not improve by more than epsilon, and the second call improves. Read
  with a best cost that starts at \<open>+\<infinity>\<close>, the statement asks for \<^verbatim>\<open>false\<close> and \<^verbatim>\<open>true\<close>. With
  \<open>max = 1\<close>, \<open>epsilon = 3 / 2 ^ 55\<close> and the costs \<open>1\<close> and \<open>1 - 1 / 2 ^ 53\<close> the calls return
  \<^verbatim>\<open>false\<close> and \<^verbatim>\<open>true\<close>, because the machine rounds \<open>1 - 3 / 2 ^ 55\<close> to the second cost; in
  the arithmetic of the real numbers the second cost improves by more than epsilon and
  the statement asks for \<^verbatim>\<open>false\<close> and \<^verbatim>\<open>false\<close>.
\<close>

theorem noimprove_stated_counterexample:
  "fst (tc_calls exact_arith (noimprove_termination_criteria 1 (2 ^ 1023))
          [Evaluable_solution (2 ^ 1023), Evaluable_solution (2 ^ 1022)]) =
     Inr [False, False]
   \<and> map (\<lambda>k. spec_noimprove_stop 1 (2 ^ 1023) (take (Suc k) [2 ^ 1023, 2 ^ 1022])) [0..<2] =
       [False, True]
   \<and> fst (tc_calls rounding_arith (noimprove_termination_criteria 1 (3 / 2 ^ 55))
            [Evaluable_solution 1, Evaluable_solution (1 - 1 / 2 ^ 53)]) =
       Inr [False, True]
   \<and> map (\<lambda>k. spec_noimprove_stop 1 (3 / 2 ^ 55) (take (Suc k) [1, 1 - 1 / 2 ^ 53])) [0..<2] =
       [False, False]"
proof -
  have a: "fst (tc_calls exact_arith (noimprove_termination_criteria 1 (2 ^ 1023))
                  [Evaluable_solution (2 ^ 1023), Evaluable_solution (2 ^ 1022)]) =
           Inr [False, False]"
    by (simp add: noimprove_termination_criteria_def noimprove_init_def noimprove_update_def
          exact_arith_def gol_type_max_def)
  have b: "map (\<lambda>k. spec_noimprove_stop 1 (2 ^ 1023) (take (Suc k) [2 ^ 1023, 2 ^ 1022]))
             [0..<2] = [False, True]"
    by (simp add: spec_noimprove_stop_def upt_conv_Cons)
  have c: "fst (tc_calls rounding_arith (noimprove_termination_criteria 1 (3 / 2 ^ 55))
                  [Evaluable_solution 1, Evaluable_solution (1 - 1 / 2 ^ 53)]) =
           Inr [False, True]"
    by (simp add: noimprove_termination_criteria_def noimprove_init_def noimprove_update_def
          rounding_arith_def gol_type_max_def)
  have d: "map (\<lambda>k. spec_noimprove_stop 1 (3 / 2 ^ 55) (take (Suc k) [1, 1 - 1 / 2 ^ 53]))
             [0..<2] = [False, False]"
    by (simp add: spec_noimprove_stop_def upt_conv_Cons)
  show ?thesis using a b c d by simp
qed

text \<open>
  C8, amended. A \<^verbatim>\<open>noimprove_termination_criteria\<close> without successor is called on
  evaluable solutions with any list of costs. The best cost starts at
  \<^verbatim>\<open>numeric_limits::max()\<close>, and a call improves when its cost is below the difference
  of the best cost and epsilon as the machine rounds it. Call number \<open>k + 1\<close> returns
  \<^verbatim>\<open>true\<close> exactly when \<open>max\<close> calls or more came before it since the latest improving
  call, that call counted and the call itself too if it improves, or since the
  construction if no call improved. And a call whose cost improves sets the countdown
  \<^verbatim>\<open>iterations_left_m\<close> back to \<open>max\<close>, records the cost as the best one and raises
  \<^verbatim>\<open>second_guess_m\<close> to \<open>max\<close> minus the countdown before the reset.
\<close>

theorem noimprove_alone:
  assumes "map evaluable_cost_function sols = map Inr costs"
  shows "fst (tc_calls ar (noimprove_termination_criteria mx eps) sols) =
           Inr (map (\<lambda>k. noimprove_stops mx (improving ar eps gol_type_max (take (Suc k) costs)))
                  [0..<length costs])
         \<and> (c < dsub ar (best_cost_m ni) (epsilon_m ni) \<longrightarrow>
              iterations_left_m (noimprove_update ar ni c) = max_noimprove_m ni
              \<and> second_guess_m (noimprove_update ar ni c) =
                  max (second_guess_m ni) (max_noimprove_m ni - iterations_left_m ni)
              \<and> best_cost_m (noimprove_update ar ni c) = c)"
proof -
  note run = noimprove_alone_run [of ar mx eps costs]
  have "map evaluable_cost_function sols =
        map evaluable_cost_function (map Evaluable_solution costs)"
    using assms by simp
  then have "tc_calls ar (Noimprove None (noimprove_init mx eps)) sols =
             tc_calls ar (Noimprove None (noimprove_init mx eps)) (map Evaluable_solution costs)"
    by (rule tc_calls_noimprove_alone_cost)
  with run show ?thesis
    unfolding noimprove_termination_criteria_def
    by (auto simp: noimprove_update_def)
qed

theorem noimprove_alone_witness:
  "map evaluable_cost_function
     [Evaluable_solution 10, Permutation_problem \<lparr>pi_m = [1, 0], cost_m = 8\<rparr>,
      Evaluable_solution 9, Evaluable_solution 9, Evaluable_solution 9, Evaluable_solution 7] =
     map Inr [10, 8, 9, 9, 9, 7]
   \<and> fst (tc_calls exact_arith (noimprove_termination_criteria 2 (1 / 2))
        [Evaluable_solution 10, Permutation_problem \<lparr>pi_m = [1, 0], cost_m = 8\<rparr>,
         Evaluable_solution 9, Evaluable_solution 9, Evaluable_solution 9,
         Evaluable_solution 7]) =
       Inr [False, False, False, True, True, False]
   \<and> map (\<lambda>k. noimprove_stops 2
                (improving exact_arith (1 / 2) gol_type_max (take (Suc k) [10, 8, 9, 9, 9, 7])))
        [0..<6] = [False, False, False, True, True, False]
   \<and> (7 :: real) < dsub exact_arith
                     (best_cost_m (noimprove_init 2 (1 / 2)
                        \<lparr>best_cost_m := 8, iterations_left_m := 0\<rparr>))
                     (epsilon_m (noimprove_init 2 (1 / 2)
                        \<lparr>best_cost_m := 8, iterations_left_m := 0\<rparr>))
   \<and> iterations_left_m
        (noimprove_update exact_arith
           (noimprove_init 2 (1 / 2)\<lparr>best_cost_m := 8, iterations_left_m := 0\<rparr>) 7) = 2
   \<and> second_guess_m
        (noimprove_update exact_arith
           (noimprove_init 2 (1 / 2)\<lparr>best_cost_m := 8, iterations_left_m := 0\<rparr>) 7) = 2
   \<and> fst (tc_calls rounding_arith (noimprove_termination_criteria 1 (3 / 2 ^ 55))
            [Evaluable_solution 1, Evaluable_solution (1 - 1 / 2 ^ 53)]) =
       Inr (map (\<lambda>k. noimprove_stops 1
                        (improving rounding_arith (3 / 2 ^ 55) gol_type_max
                           (take (Suc k) [1, 1 - 1 / 2 ^ 53]))) [0..<2])
   \<and> map (\<lambda>k. noimprove_stops 1
                (improving rounding_arith (3 / 2 ^ 55) gol_type_max
                   (take (Suc k) [1, 1 - 1 / 2 ^ 53]))) [0..<2] = [False, True]"
proof -
  let ?sols = "[Evaluable_solution 10, Permutation_problem \<lparr>pi_m = [1, 0], cost_m = 8\<rparr>,
      Evaluable_solution 9, Evaluable_solution 9, Evaluable_solution 9, Evaluable_solution 7]"
  let ?ni = "noimprove_init 2 (1 / 2) \<lparr>best_cost_m := 8, iterations_left_m := 0\<rparr>"
  have fl: "map (\<lambda>k. noimprove_stops 2
                (improving exact_arith (1 / 2) gol_type_max (take (Suc k) [10, 8, 9, 9, 9, 7])))
        [0..<6] = [False, False, False, True, True, False]"
    by (simp add: noimprove_stops_def run_before_def exact_arith_def gol_type_max_def
          upt_conv_Cons)
  have h: "map evaluable_cost_function ?sols = map Inr [10, 8, 9, 9, 9, 7]"
    by simp
  have len: "length [10, 8, 9, 9, 9, 7 :: real] = 6"
    by simp
  note th = noimprove_alone [where costs = "[10, 8, 9, 9, 9, 7]" and eps = "1 / 2" and c = 7
      and ni = ?ni and mx = 2 and ar = exact_arith and sols = ?sols, OF h]
  have a: "fst (tc_calls exact_arith (noimprove_termination_criteria 2 (1 / 2)) ?sols) =
             Inr [False, False, False, True, True, False]"
    using th [THEN conjunct1] unfolding len fl .
  have p: "(7 :: real) < dsub exact_arith (best_cost_m ?ni) (epsilon_m ?ni)"
    by (simp add: noimprove_init_def exact_arith_def)
  from th [THEN conjunct2] p
  have b: "iterations_left_m (noimprove_update exact_arith ?ni 7) = max_noimprove_m ?ni
           \<and> second_guess_m (noimprove_update exact_arith ?ni 7) =
               max (second_guess_m ?ni) (max_noimprove_m ?ni - iterations_left_m ?ni)"
    by blast
  have c: "max_noimprove_m ?ni = 2"
    "max (second_guess_m ?ni) (max_noimprove_m ?ni - iterations_left_m ?ni) = 2"
    by (simp_all add: noimprove_init_def)
  have b1: "iterations_left_m (noimprove_update exact_arith ?ni 7) = 2"
    using b [THEN conjunct1] unfolding c(1) .
  have b2: "second_guess_m (noimprove_update exact_arith ?ni 7) = 2"
    using b [THEN conjunct2] unfolding c(2) .
  have r: "fst (tc_calls rounding_arith (noimprove_termination_criteria 1 (3 / 2 ^ 55))
                  [Evaluable_solution 1, Evaluable_solution (1 - 1 / 2 ^ 53)]) =
           Inr (map (\<lambda>k. noimprove_stops 1
                            (improving rounding_arith (3 / 2 ^ 55) gol_type_max
                               (take (Suc k) [1, 1 - 1 / 2 ^ 53]))) [0..<2])"
  proof -
    have hr: "map evaluable_cost_function
                [Evaluable_solution 1, Evaluable_solution (1 - 1 / 2 ^ 53)] =
              map Inr [1, 1 - 1 / 2 ^ 53]"
      by simp
    have lr: "length [1, 1 - 1 / 2 ^ 53 :: real] = 2"
      by simp
    show ?thesis
      using noimprove_alone [where costs = "[1, 1 - 1 / 2 ^ 53]" and eps = "3 / 2 ^ 55"
          and mx = 1 and ar = rounding_arith
          and sols = "[Evaluable_solution 1, Evaluable_solution (1 - 1 / 2 ^ 53)]",
          OF hr, THEN conjunct1]
      unfolding lr .
  qed
  have rf: "map (\<lambda>k. noimprove_stops 1
                (improving rounding_arith (3 / 2 ^ 55) gol_type_max
                   (take (Suc k) [1, 1 - 1 / 2 ^ 53]))) [0..<2] = [False, True]"
    by (simp add: noimprove_stops_def run_before_def rounding_arith_def gol_type_max_def
          upt_conv_Cons)
  show ?thesis
    by (intro conjI) (rule h, rule a, rule fl, rule p, rule b1, rule b2, rule r, rule rf)
qed

lemma noimprove_zero_run:
  assumes "max_noimprove_m ni = 0" and "iterations_left_m ni = 0"
    and "Feasible_solution \<notin> set sols"
  shows "\<exists>ni'. tc_calls ar (Noimprove nx ni) sols =
                 (Inr (replicate (length sols) True), Noimprove nx ni')"
  using assms
proof (induction sols arbitrary: ni)
  case Nil
  then show ?case by simp
next
  case (Cons fs rest)
  from Cons.prems obtain c where c: "evaluable_cost_function fs = Inr c"
    by (cases fs) auto
  let ?ni1 = "noimprove_update ar ni c"
  have inv: "max_noimprove_m ?ni1 = 0" "iterations_left_m ?ni1 = 0"
    using Cons.prems by (auto simp: noimprove_update_def)
  have call: "tc_call ar (Noimprove nx ni) fs = (Inr True, Noimprove nx ?ni1)"
    using c inv by simp
  from Cons.IH [OF inv] Cons.prems obtain ni' where
    "tc_calls ar (Noimprove nx ?ni1) rest = (Inr (replicate (length rest) True), Noimprove nx ni')"
    by auto
  with call show ?case by simp
qed

text \<open>
  C10. A \<^verbatim>\<open>noimprove_termination_criteria\<close> constructed with \<open>max = 0\<close>, alone or in front
  of any successor, returns \<^verbatim>\<open>true\<close> on every call over evaluable solutions, the first
  call and improving calls included, and the successor is left as it was: it is never
  called.
\<close>

theorem noimprove_max_zero:
  assumes "Feasible_solution \<notin> set sols"
  shows "(\<exists>ni. tc_calls ar (noimprove_termination_criteria 0 eps) sols =
                (Inr (replicate (length sols) True), Noimprove None ni))
       \<and> (\<exists>ni. tc_calls ar (noimprove_termination_criteria_next successor 0 eps) sols =
                (Inr (replicate (length sols) True), Noimprove (Some successor) ni))"
  unfolding noimprove_termination_criteria_def noimprove_termination_criteria_next_def
  using noimprove_zero_run [OF _ _ assms, of "noimprove_init 0 eps"]
  by (simp add: noimprove_init_def)

theorem noimprove_max_zero_witness:
  "Feasible_solution \<notin> set [Evaluable_solution 5, Evaluable_solution 3, Evaluable_solution 4]
   \<and> fst (tc_calls exact_arith (noimprove_termination_criteria 0 (1 / 10))
        [Evaluable_solution 5, Evaluable_solution 3, Evaluable_solution 4]) =
       Inr [True, True, True]
   \<and> tc_calls exact_arith
        (noimprove_termination_criteria_next (iteration_termination_criteria 7) 0 (1 / 10))
        [Evaluable_solution 5, Evaluable_solution 3, Evaluable_solution 4] =
       (Inr [True, True, True],
        Noimprove (Some (Iteration None 7 7))
          (noimprove_init 0 (1 / 10) \<lparr>best_cost_m := 3, resets_m := 2\<rparr>))"
  using noimprove_max_zero
          [where sols = "[Evaluable_solution 5, Evaluable_solution 3, Evaluable_solution 4]"
             and eps = "1 / 10" and successor = "iteration_termination_criteria 7"
             and ar = exact_arith]
  by (simp add: noimprove_termination_criteria_def noimprove_termination_criteria_next_def
        noimprove_init_def noimprove_update_def gol_type_max_def exact_arith_def
        iteration_termination_criteria_def)

section \<open>Properties of the permutation problem\<close>


lemma apply_swap_in_range:
  assumes "0 \<le> i" "i < size_pp p" "0 \<le> j" "j < size_pp p"
  shows "apply_swap es p i j =
           Inr (p \<lparr> cost_m := cost_m p + es p i j,
                    pi_m := (pi_m p) [nat i := pi_m p ! nat j, nat j := pi_m p ! nat i] \<rparr>)"
  using assms by (simp add: apply_swap_def size_pp_def Let_def)

text \<open>
  C4. For indices \<open>i\<close> and \<open>j\<close> within the permutation, \<^verbatim>\<open>apply_swap(i, j)\<close> returns
  normally; the new \<^verbatim>\<open>cost_m\<close> is the old one plus \<^verbatim>\<open>evaluate_swap(i, j)\<close> of the object
  before the swap, \<^verbatim>\<open>cost_function()\<close> returns it, \<^verbatim>\<open>pi_m\<close> has the entries at \<open>i\<close> and
  \<open>j\<close> exchanged, and its size and all other entries are as before.
\<close>

theorem apply_swap_effect:
  assumes "0 \<le> i" "i < size_pp p" "0 \<le> j" "j < size_pp p"
  shows "\<exists>p'. apply_swap evaluate_swap p i j = Inr p'
           \<and> cost_m p' = cost_m p + evaluate_swap p i j
           \<and> cost_function p' = cost_m p'
           \<and> pi_m p' = (pi_m p) [nat i := pi_m p ! nat j, nat j := pi_m p ! nat i]
           \<and> size_pp p' = size_pp p
           \<and> pi_m p' ! nat i = pi_m p ! nat j
           \<and> pi_m p' ! nat j = pi_m p ! nat i
           \<and> (\<forall>k. k \<noteq> nat i \<and> k \<noteq> nat j \<longrightarrow> pi_m p' ! k = pi_m p ! k)"
proof -
  have "nat i < length (pi_m p)" "nat j < length (pi_m p)"
    using assms by (auto simp: size_pp_def)
  then show ?thesis
    unfolding apply_swap_in_range [OF assms]
    by (auto simp: cost_function_def size_pp_def nth_list_update)
qed

lemma apply_swap_keeps:
  assumes "0 \<le> i" "i < size_pp p" "0 \<le> j" "j < size_pp p"
  shows "\<exists>p'. apply_swap es p i j = Inr p' \<and> size_pp p' = size_pp p
              \<and> mset (pi_m p') = mset (pi_m p)"
proof -
  have "nat i < length (pi_m p)" "nat j < length (pi_m p)"
    using assms by (auto simp: size_pp_def)
  then show ?thesis
    unfolding apply_swap_in_range [OF assms]
    by (simp add: size_pp_def mset_swap)
qed

lemma apply_swaps_keeps:
  assumes "swaps_in_range (size_pp p) swaps"
  shows "\<exists>p'. apply_swaps es p swaps = Inr p' \<and> size_pp p' = size_pp p
              \<and> mset (pi_m p') = mset (pi_m p)"
  using assms
proof (induction swaps arbitrary: p)
  case Nil
  then show ?case by simp
next
  case (Cons ij rest)
  obtain i j where ij: "ij = (i, j)" by (cases ij)
  with Cons.prems have r: "0 \<le> i" "i < size_pp p" "0 \<le> j" "j < size_pp p"
    and rest: "swaps_in_range (size_pp p) rest"
    by (auto simp: swaps_in_range_def)
  from apply_swap_keeps [OF r, of es] obtain p1 where
    p1: "apply_swap es p i j = Inr p1" "size_pp p1 = size_pp p" "mset (pi_m p1) = mset (pi_m p)"
    by blast
  from Cons.IH [of p1] rest p1 obtain p' where
    "apply_swaps es p1 rest = Inr p'" "size_pp p' = size_pp p1" "mset (pi_m p') = mset (pi_m p1)"
    by auto
  with p1 ij show ?case by simp
qed

lemma apply_swaps_append:
  "apply_swaps es p (xs @ ys) =
     (case apply_swaps es p xs of Inl e \<Rightarrow> Inl e | Inr p' \<Rightarrow> apply_swaps es p' ys)"
  by (induction xs arbitrary: p) (auto split: sum.splits)

lemma size_pp_new:
  "0 \<le> n \<Longrightarrow> permutation_problem_new n = Inr p \<Longrightarrow> size_pp p = n \<and> pi_m p = [0..n - 1]"
  by (auto simp: permutation_problem_new_def size_pp_def)

lemma sdiv_nonneg: "0 \<le> (a::int) \<Longrightarrow> a sdiv 2 = a div 2"
  by (simp add: signed_divide_int_def sgn_if)

lemma smod_nonneg: "0 \<le> (a::int) \<Longrightarrow> 0 < b \<Longrightarrow> a smod b = a mod b"
  by (simp add: signed_modulo_int_def sgn_if)

lemma invert_apply_loop_swaps:
  assumes "sz = size_pp sol" "0 \<le> p1" "0 \<le> p2" "p2 < sz" "0 \<le> ii" "ii \<le> tp div 2" "tp \<le> sz + 1"
  shows "invert_apply_loop es p1 p2 sz tp ii sol =
           Some (apply_swaps es sol (invert_swaps p1 p2 sz tp ii))"
  using assms
proof (induction "nat (tp div 2 - ii)" arbitrary: ii sol)
  case 0
  then have "ii = tp div 2" by simp
  moreover have "tp sdiv 2 = tp div 2" using 0 by (intro sdiv_nonneg) linarith
  ultimately show ?case
    by (subst invert_apply_loop.simps) (simp add: invert_swaps_def)
next
  case (Suc d)
  have tp: "tp sdiv 2 = tp div 2" using Suc.prems by (intro sdiv_nonneg) linarith
  have lt: "ii < tp div 2" using Suc.hyps(2) by linarith
  have sz: "0 < sz" using Suc.prems by linarith
  have fr: "(p1 + ii) smod sz = (p1 + ii) mod sz"
    using Suc.prems sz by (intro smod_nonneg) auto
  have "ii < sz" using lt Suc.prems by linarith
  then have to: "(sz + p2 - ii) smod sz = (sz + p2 - ii) mod sz"
    using Suc.prems sz by (intro smod_nonneg) auto
  let ?f = "(p1 + ii) mod sz" and ?t = "(sz + p2 - ii) mod sz"
  have rng: "0 \<le> ?f" "?f < sz" "0 \<le> ?t" "?t < sz"
    using sz by simp_all
  then have rng': "0 \<le> ?f" "?f < size_pp sol" "0 \<le> ?t" "?t < size_pp sol"
    using Suc.prems(1) by simp_all
  from apply_swap_keeps [OF rng', of es] obtain sol' where
    sol': "apply_swap es sol ?f ?t = Inr sol'" "size_pp sol' = size_pp sol"
    by blast
  have IH: "invert_apply_loop es p1 p2 sz tp (ii + 1) sol' =
              Some (apply_swaps es sol' (invert_swaps p1 p2 sz tp (ii + 1)))"
    using Suc.hyps(2) Suc.prems sol' lt by (intro Suc.hyps(1)) auto
  have unfold: "invert_swaps p1 p2 sz tp ii = (?f, ?t) # invert_swaps p1 p2 sz tp (ii + 1)"
    using lt by (simp add: invert_swaps_def upto_rec1 [of ii])
  show ?case
    using lt sz rng sol'(1) IH
    by (subst invert_apply_loop.simps) (simp add: tp fr to unfold Let_def)
qed


theorem apply_swap_effect_witness:
  "(0::int) \<le> 1 \<and> 1 < size_pp \<lparr>pi_m = [0, 1, 2, 3], cost_m = 14\<rparr>
   \<and> (0::int) \<le> 3 \<and> 3 < size_pp \<lparr>pi_m = [0, 1, 2, 3], cost_m = 14\<rparr>
   \<and> s1_evaluate_swap \<lparr>pi_m = [0, 1, 2, 3], cost_m = 14\<rparr> 1 3 = - 4
   \<and> apply_swap s1_evaluate_swap \<lparr>pi_m = [0, 1, 2, 3], cost_m = 14\<rparr> 1 3 =
       Inr \<lparr>pi_m = [0, 3, 2, 1], cost_m = 10\<rparr>
   \<and> (2 \<noteq> nat 1 \<and> 2 \<noteq> nat 3)"
  using apply_swap_effect [of 1 "\<lparr>pi_m = [0, 1, 2, 3], cost_m = 14\<rparr>" 3 s1_evaluate_swap]
  by (auto simp: size_pp_def s1_evaluate_swap_def s1_compute_cost_def upt_conv_Cons)

lemma perturbate_redraw_range:
  assumes "perturbate_redraw int_range sz p1 p2 rng = Some y"
    and "\<forall>r. 0 \<le> fst (int_range r sz) \<and> fst (int_range r sz) < sz"
    and "0 \<le> p2" "p2 < sz"
  shows "0 \<le> fst y \<and> fst y < sz"
proof -
  let ?P = "\<lambda>ir sz (p1::int) p2 (rng::'a) (y::int \<times> 'a).
              (\<forall>r. 0 \<le> fst (ir r sz) \<and> fst (ir r sz) < sz) \<longrightarrow>
              0 \<le> p2 \<longrightarrow> p2 < sz \<longrightarrow> 0 \<le> fst y \<and> fst y < sz"
  have "?P int_range sz p1 p2 rng y"
  proof (rule perturbate_redraw.raw_induct [where P = ?P, OF _ assms(1)])
    fix f :: "('a \<Rightarrow> int \<Rightarrow> int \<times> 'a) \<Rightarrow> int \<Rightarrow> int \<Rightarrow> int \<Rightarrow> 'a \<Rightarrow> (int \<times> 'a) option"
    fix ir sz p1 p2 rng y
    assume IH: "\<And>sz p1 p2 rng b y. f sz p1 p2 rng b = Some y \<Longrightarrow> ?P sz p1 p2 rng b y"
    assume body: "(if p1 = p2
                   then case ir rng sz of (p2', rng') \<Rightarrow> f ir sz p1 p2' rng'
                   else Some (p2, rng)) = Some y"
    show "?P ir sz p1 p2 rng y"
    proof (cases "p1 = p2")
      case True
      obtain q rng' where d: "ir rng sz = (q, rng')" by (cases "ir rng sz")
      with body True have "f ir sz p1 q rng' = Some y" by simp
      from IH [OF this] d show ?thesis
        by (metis fst_conv)
    next
      case False
      with body show ?thesis by auto
    qed
  qed
  with assms show ?thesis by blast
qed

lemma perturbate_swaps:
  assumes "perturbate es int_range p k rng = Some (res, rng')"
    and "\<forall>r. 0 \<le> fst (int_range r (size_pp p)) \<and> fst (int_range r (size_pp p)) < size_pp p"
  shows "\<exists>swaps. length swaps = k \<and> swaps_in_range (size_pp p) swaps
           \<and> res = apply_swaps es p swaps"
  using assms
proof (induction k arbitrary: p rng)
  case 0
  then show ?case by (auto simp: swaps_in_range_def)
next
  case (Suc k)
  let ?n = "size_pp p"
  obtain a rng1 where d1: "int_range rng ?n = (a, rng1)" by (cases "int_range rng ?n")
  obtain b rng2 where d2: "int_range rng1 ?n = (b, rng2)" by (cases "int_range rng1 ?n")
  from Suc.prems(1) d1 d2 obtain b' rng3 where
    rd: "perturbate_redraw int_range ?n a b rng2 = Some (b', rng3)"
    by (auto split: option.splits)
  have ra: "0 \<le> a" "a < ?n" using Suc.prems(2) d1 by (metis fst_conv)+
  have rb: "0 \<le> b" "b < ?n" using Suc.prems(2) d2 by (metis fst_conv)+
  from perturbate_redraw_range [OF rd Suc.prems(2) rb]
  have rb': "0 \<le> b'" "b' < ?n" by simp_all
  from apply_swap_keeps [OF ra rb', of es] obtain p' where
    p': "apply_swap es p a b' = Inr p'" "size_pp p' = ?n"
    by blast
  with Suc.prems(1) d1 d2 rd have rest: "perturbate es int_range p' k rng3 = Some (res, rng')"
    by simp
  from Suc.IH [OF rest] Suc.prems(2) p'(2) obtain swaps where
    sw: "length swaps = k" "swaps_in_range ?n swaps" "res = apply_swaps es p' swaps"
    by auto
  have "swaps_in_range ?n ((a, b') # swaps)"
    using ra rb' sw(2) by (simp add: swaps_in_range_def)
  moreover have "res = apply_swaps es p ((a, b') # swaps)"
    using p'(1) sw(3) by simp
  ultimately show ?case using sw(1)
    by (metis length_Cons)
qed

lemma invert_swaps_in_range:
  assumes "0 < sz"
  shows "swaps_in_range sz (invert_swaps p1 p2 sz tp ii)"
  using assms by (simp add: swaps_in_range_def invert_swaps_def list_all_iff)

lemma invert_top_bounds:
  assumes "0 \<le> p1" "p1 < sz" "0 \<le> p2" "p2 < sz"
  shows "1 \<le> invert_top sz p1 p2" "invert_top sz p1 p2 \<le> sz + 1"
  using assms by (auto simp: invert_top_def)

lemma invert_apply_swaps:
  assumes "0 \<le> p1" "p1 < size_pp sol" "0 \<le> p2" "p2 < size_pp sol"
  shows "move_apply es (invert_subsequence p1 p2) (Permutation_problem sol) =
           Some (map_sum id Permutation_problem
                   (apply_swaps es sol
                      (invert_swaps p1 p2 (size_pp sol) (invert_top (size_pp sol) p1 p2) 0)))"
proof -
  have "0 \<le> invert_top (size_pp sol) p1 p2 div 2"
    using invert_top_bounds(1) [OF assms] by simp
  then show ?thesis
    using invert_top_bounds(2) [OF assms] assms
    by (simp add: invert_subsequence_def invert_apply_loop_swaps)
qed

text \<open>
  C5. From the constructed state \<open>pi = (0, 1, \<dots>, n - 1)\<close>, every finite sequence of
  \<^verbatim>\<open>apply_swap\<close> calls with indices in range returns normally and leaves \<^verbatim>\<open>pi_m\<close> a
  permutation of \<open>0 .. n - 1\<close>. What \<^verbatim>\<open>invert_subsequence::apply\<close> with positions in
  range does to such a state is such a sequence of calls, and so is what
  \<^verbatim>\<open>perturbate\<close> does whenever it returns, the generator drawing from \<open>0 .. n - 1\<close>.
\<close>

theorem pi_remains_permutation:
  assumes "0 \<le> n" and "swaps_in_range n swaps"
  shows "\<exists>p0 p. permutation_problem_new n = Inr p0 \<and> pi_m p0 = [0..n - 1]
           \<and> apply_swaps evaluate_swap p0 swaps = Inr p
           \<and> size_pp p = n \<and> mset (pi_m p) = mset [0..n - 1]
           \<and> (0 \<le> p1 \<and> p1 < n \<and> 0 \<le> p2 \<and> p2 < n \<longrightarrow>
                (\<exists>inv. swaps_in_range n inv \<and>
                   move_apply evaluate_swap (invert_subsequence p1 p2) (Permutation_problem p) =
                     Some (map_sum id Permutation_problem (apply_swaps evaluate_swap p inv))))
           \<and> ((\<forall>r. 0 \<le> fst (int_range r n) \<and> fst (int_range r n) < n) \<and>
               perturbate evaluate_swap int_range p k rng = Some (res, rng') \<longrightarrow>
                (\<exists>per. swaps_in_range n per \<and> res = apply_swaps evaluate_swap p per))"
proof -
  obtain p0 where p0: "permutation_problem_new n = Inr p0" "pi_m p0 = [0..n - 1]"
    "size_pp p0 = n"
    using assms(1) by (auto simp: permutation_problem_new_def size_pp_def)
  from apply_swaps_keeps [of p0 swaps evaluate_swap] assms(2) p0 obtain p where
    p: "apply_swaps evaluate_swap p0 swaps = Inr p" "size_pp p = n"
       "mset (pi_m p) = mset [0..n - 1]"
    by auto
  have inv: "\<exists>inv. swaps_in_range n inv \<and>
               move_apply evaluate_swap (invert_subsequence p1 p2) (Permutation_problem p) =
                 Some (map_sum id Permutation_problem (apply_swaps evaluate_swap p inv))"
    if "0 \<le> p1" "p1 < n" "0 \<le> p2" "p2 < n"
    using invert_apply_swaps [of p1 p p2 evaluate_swap] that p(2)
      invert_swaps_in_range [of n p1 p2 "invert_top n p1 p2" 0]
    by auto
  have per: "\<exists>per. swaps_in_range n per \<and> res = apply_swaps evaluate_swap p per"
    if "\<forall>r. 0 \<le> fst (int_range r n) \<and> fst (int_range r n) < n"
      "perturbate evaluate_swap int_range p k rng = Some (res, rng')"
    using perturbate_swaps [of evaluate_swap int_range p k rng res rng'] that p(2)
    by auto
  show ?thesis using p0 p inv per by blast
qed


theorem pi_remains_permutation_witness:
  "(0::int) \<le> 4 \<and> swaps_in_range 4 [(0, 1), (2, 3)]
   \<and> permutation_problem_new 4 = Inr \<lparr>pi_m = [0, 1, 2, 3], cost_m = 0\<rparr>
   \<and> apply_swaps s1_evaluate_swap \<lparr>pi_m = [0, 1, 2, 3], cost_m = 0\<rparr> [(0, 1), (2, 3)] =
       Inr \<lparr>pi_m = [1, 0, 3, 2], cost_m = - 2\<rparr>
   \<and> mset [1, 0, 3, 2] = mset [0..(4::int) - 1]
   \<and> ((0::int) \<le> 3 \<and> (3::int) < 4 \<and> (0::int) \<le> 1 \<and> (1::int) < 4)
   \<and> move_apply s1_evaluate_swap (invert_subsequence 3 1)
         (Permutation_problem \<lparr>pi_m = [1, 0, 3, 2], cost_m = - 2\<rparr>) =
       Some (Inr (Permutation_problem \<lparr>pi_m = [1, 2, 3, 0], cost_m = - 6\<rparr>))
   \<and> (\<forall>r::nat. 0 \<le> fst (int (r div 3) mod 4, Suc r) \<and> fst (int (r div 3) mod 4, Suc r) < 4)
   \<and> perturbate s1_evaluate_swap (\<lambda>r sz. (int (r div 3) mod sz, Suc r))
         \<lparr>pi_m = [1, 0, 3, 2], cost_m = - 2\<rparr> 1 (0::nat) =
       Some (Inr \<lparr>pi_m = [0, 1, 3, 2], cost_m = - 1\<rparr>, 4)"
proof -
  have a: "apply_swaps s1_evaluate_swap \<lparr>pi_m = [0, 1, 2, 3], cost_m = 0\<rparr> [(0, 1), (2, 3)] =
             Inr \<lparr>pi_m = [1, 0, 3, 2], cost_m = - 2\<rparr>"
    by code_simp
  have b: "move_apply s1_evaluate_swap (invert_subsequence 3 1)
             (Permutation_problem \<lparr>pi_m = [1, 0, 3, 2], cost_m = - 2\<rparr>) =
           Some (Inr (Permutation_problem \<lparr>pi_m = [1, 2, 3, 0], cost_m = - 6\<rparr>))"
    by code_simp
  have c: "perturbate s1_evaluate_swap (\<lambda>r sz. (int (r div 3) mod sz, Suc r))
             \<lparr>pi_m = [1, 0, 3, 2], cost_m = - 2\<rparr> 1 (0::nat) =
           Some (Inr \<lparr>pi_m = [0, 1, 3, 2], cost_m = - 1\<rparr>, 4)"
    by code_simp
  have d: "permutation_problem_new 4 = Inr \<lparr>pi_m = [0, 1, 2, 3], cost_m = 0\<rparr>"
    by code_simp
  have e: "swaps_in_range 4 [(0, 1), (2, 3)]"
    by (simp add: swaps_in_range_def)
  have f: "mset [1, 0, 3, 2] = mset [0..(4::int) - 1]"
    by (simp add: upto_rec1)
  from pi_remains_permutation
         [where n = 4 and swaps = "[(0, 1), (2, 3)]" and evaluate_swap = s1_evaluate_swap
            and ?p1.0 = 3 and ?p2.0 = 1
            and int_range = "\<lambda>r sz. (int (r div 3) mod sz, Suc r)"
            and k = 1 and rng = "0::nat"
            and res = "Inr \<lparr>pi_m = [0, 1, 3, 2], cost_m = - 1\<rparr>" and rng' = 4, OF _ e]
  show ?thesis
    using a b c d e f by simp
qed

section \<open>Properties of the subsequence inversion\<close>

lemma invert_top_spec_length:
  assumes "0 \<le> p1" "p1 < n" "0 \<le> p2" "p2 < n" "p1 \<noteq> p2"
  shows "invert_top n p1 p2 = spec_length n p1 p2"
proof (cases "p1 < p2")
  case True
  then show ?thesis
    using assms by (cases "p2 - p1 + 1 = n") (auto simp: invert_top_def spec_length_def)
next
  case False
  with assms have lt: "p2 < p1" by simp
  have eq: "(p2 - p1 + 1) mod n = (n + p2 - p1 + 1) mod n"
    by (metis add.assoc add_diff_eq mod_add_self1)
  show ?thesis
  proof (cases "p1 = p2 + 1")
    case True
    then show ?thesis using assms by (simp add: invert_top_def spec_length_def)
  next
    case False
    with lt assms have "0 < n + p2 - p1 + 1" "n + p2 - p1 + 1 < n" by auto
    then have "(n + p2 - p1 + 1) mod n = n + p2 - p1 + 1" by simp
    with eq lt assms show ?thesis by (auto simp: invert_top_def spec_length_def)
  qed
qed

lemma invert_top_range:
  assumes "0 \<le> p1" "p1 < n" "0 \<le> p2" "p2 < n" "p1 \<noteq> p2"
  shows "2 \<le> invert_top n p1 p2" "invert_top n p1 p2 \<le> n"
  using assms by (auto simp: invert_top_def)

lemma invert_to_index:
  assumes "0 \<le> p1" "p1 < n" "0 \<le> p2" "p2 < n"
  shows "(n + p2 - k) mod n = (p1 + (invert_top n p1 p2 - 1 - k)) mod n"
proof (cases "p1 < p2")
  case True
  then have a: "p1 + (invert_top n p1 p2 - 1 - k) = p2 - k" by (simp add: invert_top_def)
  have b: "(n + p2 - k) mod n = (p2 - k) mod n"
    by (metis add_diff_eq mod_add_self1)
  show ?thesis by (simp only: a b)
next
  case False
  then have a: "p1 + (invert_top n p1 p2 - 1 - k) = n + p2 - k" by (simp add: invert_top_def)
  show ?thesis by (simp only: a)
qed

lemma length_invert_partial [simp]: "length (invert_partial xs p1 len m) = length xs"
  by (simp add: invert_partial_def Let_def)

lemma nth_invert_partial:
  assumes "i < length xs"
  shows "invert_partial xs p1 len m ! i =
           (let n = int (length xs); k = (int i - p1) mod n in
            if k < len \<and> (k < m \<or> len - m \<le> k)
            then xs ! nat ((p1 + (len - 1 - k)) mod n) else xs ! i)"
  using assms by (auto simp add: invert_partial_def Let_def)


lemma arc_offset:
  fixes n :: int
  assumes "0 \<le> k" "k < n"
  shows "((p1 + k) mod n - p1) mod n = k"
proof -
  have "((p1 + k) mod n - p1) mod n = (p1 + k - p1) mod n"
    by (rule mod_diff_left_eq)
  then show ?thesis using assms by simp
qed

lemma arc_index:
  fixes n :: int
  assumes "0 \<le> i" "i < n"
  shows "(p1 + (i - p1) mod n) mod n = i"
proof -
  have "(p1 + (i - p1) mod n) mod n = (p1 + (i - p1)) mod n"
    by (rule mod_add_right_eq)
  then show ?thesis using assms by simp
qed

lemma invert_partial_step:
  fixes n p1 len m :: int and xs :: "int list"
  assumes n: "n = int (length xs)" and len: "len \<le> n" and m: "0 \<le> m" "m < len div 2"
  defines "a \<equiv> (p1 + m) mod n" and "b \<equiv> (p1 + (len - 1 - m)) mod n"
  defines "ys \<equiv> invert_partial xs p1 len m"
  shows "ys [nat a := ys ! nat b, nat b := ys ! nat a] = invert_partial xs p1 len (m + 1)"
proof (rule nth_equalityI)
  show "length (ys [nat a := ys ! nat b, nat b := ys ! nat a]) =
        length (invert_partial xs p1 len (m + 1))"
    by (simp add: ys_def)
next
  fix i assume "i < length (ys [nat a := ys ! nat b, nat b := ys ! nat a])"
  then have i: "i < length xs" by (simp add: ys_def)
  have npos: "0 < n" using i n by auto
  have m2: "m < len - 1 - m" "len - 1 - m < len" "0 \<le> len - 1 - m" "len - 1 - m < n"
    using m len by auto
  have mn: "m < n" using m2 by linarith
  have a: "0 \<le> a" "a < n" and b: "0 \<le> b" "b < n"
    using npos by (simp_all add: a_def b_def)
  have ka: "(a - p1) mod n = m"
    unfolding a_def using arc_offset [OF m(1) mn] .
  have kb: "(b - p1) mod n = len - 1 - m"
    unfolding b_def using arc_offset [OF m2(3) m2(4)] .
  have ab: "a \<noteq> b" using ka kb m2 by auto
  have la: "nat a < length xs" and lb: "nat b < length xs"
    using a b n by auto
  have ya: "ys ! nat a = xs ! nat a"
    unfolding ys_def using nth_invert_partial [OF la, of p1 len m] a ka m2 n
    by (simp add: Let_def)
  have yb: "ys ! nat b = xs ! nat b"
    unfolding ys_def using nth_invert_partial [OF lb, of p1 len m] b kb m2 n
    by (simp add: Let_def)
  let ?k = "(int i - p1) mod n"
  have arc: "(p1 + ?k) mod n = int i"
    using arc_index [of "int i" n p1] i n by simp
  show "ys [nat a := ys ! nat b, nat b := ys ! nat a] ! i = invert_partial xs p1 len (m + 1) ! i"
  proof (cases "i = nat a")
    case True
    then have k: "?k = m" using ka a by simp
    have "ys [nat a := ys ! nat b, nat b := ys ! nat a] ! i = xs ! nat b"
      using True ab a b la lb yb by (simp add: ys_def nth_list_update)
    moreover have "invert_partial xs p1 len (m + 1) ! i = xs ! nat b"
      using nth_invert_partial [OF i, of p1 len "m + 1"] k m2 n
      by (simp add: Let_def b_def)
    ultimately show ?thesis by simp
  next
    case False
    note na = this
    show ?thesis
    proof (cases "i = nat b")
      case True
      then have k: "?k = len - 1 - m" using kb b by simp
      have "ys [nat a := ys ! nat b, nat b := ys ! nat a] ! i = xs ! nat a"
        using True la lb ya by (simp add: ys_def nth_list_update)
      moreover have "invert_partial xs p1 len (m + 1) ! i = xs ! nat a"
        using nth_invert_partial [OF i, of p1 len "m + 1"] k m2 n
        by (simp add: Let_def a_def)
      ultimately show ?thesis by simp
    next
      case False
      have "?k \<noteq> m"
      proof
        assume "?k = m"
        with arc have "int i = a" by (simp add: a_def)
        with na show False by simp
      qed
      moreover have "?k \<noteq> len - 1 - m"
      proof
        assume "?k = len - 1 - m"
        with arc have "int i = b" by (simp add: b_def)
        with False show False by simp
      qed
      ultimately have "(?k < m \<or> len - m \<le> ?k) = (?k < m + 1 \<or> len - (m + 1) \<le> ?k)"
        by auto
      then have "invert_partial xs p1 len (m + 1) ! i = ys ! i"
        unfolding ys_def
        using nth_invert_partial [OF i, of p1 len "m + 1"] nth_invert_partial [OF i, of p1 len m] n
        by (simp add: Let_def)
      then show ?thesis using na False by (simp add: nth_list_update)
    qed
  qed
qed

lemma invert_partial_0: "invert_partial xs p1 len 0 = xs"
proof (rule nth_equalityI)
  show "length (invert_partial xs p1 len 0) = length xs" by simp
next
  fix i assume "i < length (invert_partial xs p1 len 0)"
  then have i: "i < length xs" by simp
  have "0 < int (length xs)" using i by auto
  then have "0 \<le> (int i - p1) mod int (length xs)"
    by (rule pos_mod_sign)
  then show "invert_partial xs p1 len 0 ! i = xs ! i"
    using nth_invert_partial [OF i, of p1 len 0] by (auto simp: Let_def)
qed

lemma invert_partial_full:
  assumes "0 \<le> len"
  shows "invert_partial xs p1 len (len div 2) =
           map (\<lambda>i. if (i - p1) mod int (length xs) < len
                     then xs ! nat ((p1 + (len - 1 - (i - p1) mod int (length xs)))
                                      mod int (length xs))
                     else xs ! nat i) [0..int (length xs) - 1]"
    (is "?l = ?r")
proof (rule nth_equalityI)
  show "length ?l = length ?r" by simp
next
  fix i assume "i < length ?l"
  then have i: "i < length xs" by simp
  let ?n = "int (length xs)"
  let ?k = "(int i - p1) mod ?n"
  have arc: "(p1 + ?k) mod ?n = int i"
    using arc_index [of "int i" "?n" p1] i by simp
  have r: "?r ! i = (if ?k < len then xs ! nat ((p1 + (len - 1 - ?k)) mod ?n) else xs ! i)"
    using i by simp
  show "?l ! i = ?r ! i"
  proof (cases "?k < len \<and> \<not> (?k < len div 2 \<or> len - len div 2 \<le> ?k)")
    case True
    then have "len - 1 - ?k = ?k" by linarith
    then have "xs ! nat ((p1 + (len - 1 - ?k)) mod ?n) = xs ! i"
      using arc by simp
    with True show ?thesis
      unfolding r using nth_invert_partial [OF i, of p1 len "len div 2"] by (simp add: Let_def)
  next
    case False
    then show ?thesis
      unfolding r using nth_invert_partial [OF i, of p1 len "len div 2"] by (auto simp: Let_def)
  qed
qed


lemma invert_swaps_prefix:
  assumes n: "n = size_pp sol" and r: "0 \<le> p1" "p1 < n" "0 \<le> p2" "p2 < n"
    and len: "len = invert_top n p1 p2" "len \<le> n" and m: "int m \<le> len div 2"
  shows "\<exists>sol'. apply_swaps es sol
                  (map (\<lambda>k. ((p1 + k) mod n, (n + p2 - k) mod n)) [0..int m - 1]) = Inr sol'
           \<and> size_pp sol' = n
           \<and> pi_m sol' = invert_partial (pi_m sol) p1 len (int m)"
  using m
proof (induction m)
  case 0
  then show ?case using n by (simp add: invert_partial_0)
next
  case (Suc m)
  let ?f = "\<lambda>k. ((p1 + k) mod n, (n + p2 - k) mod n)"
  from Suc obtain sol1 where
    s1: "apply_swaps es sol (map ?f [0..int m - 1]) = Inr sol1" "size_pp sol1 = n"
        "pi_m sol1 = invert_partial (pi_m sol) p1 len (int m)"
    by auto
  let ?a = "(p1 + int m) mod n" and ?b = "(p1 + (len - 1 - int m)) mod n"
  have npos: "0 < n" using r by linarith
  have b: "(n + p2 - int m) mod n = ?b"
    unfolding len(1) by (rule invert_to_index [OF r])
  have rng: "0 \<le> ?a" "?a < size_pp sol1" "0 \<le> ?b" "?b < size_pp sol1"
    using npos s1(2) by simp_all
  have nl: "n = int (length (pi_m sol))" using n by (simp add: size_pp_def)
  have step: "(pi_m sol1) [nat ?a := pi_m sol1 ! nat ?b, nat ?b := pi_m sol1 ! nat ?a] =
              invert_partial (pi_m sol) p1 len (int m + 1)"
    unfolding s1(3)
    using Suc.prems by (intro invert_partial_step [OF nl len(2)]) auto
  have split: "[0..int (Suc m) - 1] = [0..int m - 1] @ [int m]"
    using upto_rec2 [of 0 "int m"] by simp
  have "apply_swaps es sol (map ?f [0..int (Suc m) - 1]) =
          apply_swap es sol1 ?a ?b"
    unfolding split by (simp add: apply_swaps_append s1(1) b split: sum.splits)
  also have "\<dots> = Inr (sol1 \<lparr> cost_m := cost_m sol1 + es sol1 ?a ?b,
                          pi_m := (pi_m sol1) [nat ?a := pi_m sol1 ! nat ?b,
                                               nat ?b := pi_m sol1 ! nat ?a] \<rparr>)"
    by (rule apply_swap_in_range [OF rng])
  finally show ?case
    using step s1(2) nl by (simp add: size_pp_def add.commute)
qed

lemma length_invert_swaps:
  "0 \<le> tp \<Longrightarrow> int (length (invert_swaps p1 p2 sz tp 0)) = tp div 2"
  by (simp add: invert_swaps_def)

text \<open>
  C2, amended. For a solution of size at least 2 and two different positions \<open>p1\<close>, \<open>p2\<close>
  in range, \<^verbatim>\<open>invert_subsequence(p1, p2).apply\<close> returns normally, the new \<^verbatim>\<open>pi_m\<close> is the
  old one with the circular subsequence from \<open>p1\<close> to \<open>p2\<close> reversed, and the call does
  what a sequence of exactly \<open>length div 2\<close> calls of \<^verbatim>\<open>apply_swap\<close> does, \<open>length\<close> being
  \<open>(p2 - p1 + 1) mod n\<close>, or \<open>n\<close> if that is 0. For \<open>n = 5\<close> and \<open>pi = (0, 1, 2, 3, 4)\<close>,
  \<^verbatim>\<open>invert_subsequence(3, 1).apply\<close> gives \<open>(4, 3, 2, 1, 0)\<close>.
\<close>

theorem invert_apply_reverses:
  assumes "2 \<le> size_pp sol" "0 \<le> p1" "p1 < size_pp sol" "0 \<le> p2" "p2 < size_pp sol"
    and "p1 \<noteq> p2"
  shows "\<exists>sol' swaps.
           move_apply evaluate_swap (invert_subsequence p1 p2) (Permutation_problem sol) =
             Some (Inr (Permutation_problem sol'))
           \<and> pi_m sol' = spec_invert (pi_m sol) p1 p2
           \<and> apply_swaps evaluate_swap sol swaps = Inr sol'
           \<and> int (length swaps) = spec_length (size_pp sol) p1 p2 div 2"
proof -
  let ?n = "size_pp sol"
  let ?tp = "invert_top ?n p1 p2"
  let ?swaps = "invert_swaps p1 p2 ?n ?tp 0"
  have r: "0 \<le> p1" "p1 < ?n" "0 \<le> p2" "p2 < ?n" using assms by simp_all
  have tp: "2 \<le> ?tp" "?tp \<le> ?n"
    using invert_top_range [OF r assms(6)] by simp_all
  have spec: "?tp = spec_length ?n p1 p2"
    by (rule invert_top_spec_length [OF r assms(6)])
  have m: "int (nat (?tp div 2)) \<le> ?tp div 2" using tp by simp
  from invert_swaps_prefix [OF refl r refl tp(2) m, of evaluate_swap] obtain sol' where
    s: "apply_swaps evaluate_swap sol ?swaps = Inr sol'"
       "pi_m sol' = invert_partial (pi_m sol) p1 ?tp (?tp div 2)"
    using tp by (auto simp: invert_swaps_def)
  have "pi_m sol' = spec_invert (pi_m sol) p1 p2"
    unfolding s(2) spec_invert_def Let_def
    using invert_partial_full [of ?tp "pi_m sol" p1] tp spec
    by (simp add: size_pp_def)
  moreover have "move_apply evaluate_swap (invert_subsequence p1 p2) (Permutation_problem sol) =
                   Some (Inr (Permutation_problem sol'))"
    unfolding invert_apply_swaps [OF r] s(1) by simp
  moreover have "int (length ?swaps) = spec_length ?n p1 p2 div 2"
    using length_invert_swaps [of ?tp p1 p2 ?n] tp spec by simp
  ultimately show ?thesis using s(1) by blast
qed

theorem invert_apply_reverses_witness:
  "(2::int) \<le> size_pp \<lparr>pi_m = [0, 1, 2, 3, 4], cost_m = 30\<rparr>
   \<and> (0::int) \<le> 3 \<and> 3 < size_pp \<lparr>pi_m = [0, 1, 2, 3, 4], cost_m = 30\<rparr>
   \<and> (0::int) \<le> 1 \<and> 1 < size_pp \<lparr>pi_m = [0, 1, 2, 3, 4], cost_m = 30\<rparr>
   \<and> (3::int) \<noteq> 1
   \<and> move_apply s1_evaluate_swap (invert_subsequence 3 1)
         (Permutation_problem \<lparr>pi_m = [0, 1, 2, 3, 4], cost_m = 30\<rparr>) =
       Some (Inr (Permutation_problem \<lparr>pi_m = [4, 3, 2, 1, 0], cost_m = 10\<rparr>))
   \<and> spec_invert [0, 1, 2, 3, 4] 3 1 = [4, 3, 2, 1, 0]
   \<and> apply_swaps s1_evaluate_swap \<lparr>pi_m = [0, 1, 2, 3, 4], cost_m = 30\<rparr> [(3, 1), (4, 0)] =
       Inr \<lparr>pi_m = [4, 3, 2, 1, 0], cost_m = 10\<rparr>
   \<and> spec_length 5 3 1 div 2 = 2"
proof -
  have a: "move_apply s1_evaluate_swap (invert_subsequence 3 1)
             (Permutation_problem \<lparr>pi_m = [0, 1, 2, 3, 4], cost_m = 30\<rparr>) =
           Some (Inr (Permutation_problem \<lparr>pi_m = [4, 3, 2, 1, 0], cost_m = 10\<rparr>))"
    by code_simp
  have b: "apply_swaps s1_evaluate_swap \<lparr>pi_m = [0, 1, 2, 3, 4], cost_m = 30\<rparr>
             [(3, 1), (4, 0)] = Inr \<lparr>pi_m = [4, 3, 2, 1, 0], cost_m = 10\<rparr>"
    by code_simp
  have c: "spec_length 5 3 1 div 2 = 2"
    by (simp add: spec_length_def)
  from invert_apply_reverses
         [of "\<lparr>pi_m = [0, 1, 2, 3, 4], cost_m = 30\<rparr>" 3 1 s1_evaluate_swap]
  have "spec_invert [0, 1, 2, 3, 4] 3 1 = [4, 3, 2, 1, 0]"
    unfolding a by (auto simp: size_pp_def)
  then show ?thesis using a b c by (simp add: size_pp_def)
qed

text \<open>
  C2 as stated fails twice. For \<open>n = 5\<close> and \<open>pi = (0, 1, 2, 3, 4)\<close> the move
  \<^verbatim>\<open>invert_subsequence(3, 1)\<close> gives \<open>(4, 3, 2, 1, 0)\<close>, not \<open>(3, 1, 0, 4, 2)\<close>. And for
  \<open>p1 = p2\<close> the code takes \<open>top = size + 1\<close>: on \<open>(0, 1, 2)\<close> the move
  \<^verbatim>\<open>invert_subsequence(0, 0)\<close> calls \<^verbatim>\<open>apply_swap\<close> twice (with an \<^verbatim>\<open>evaluate_swap\<close> that
  is constantly 1 the cost goes from 0 to 2) and gives \<open>(0, 2, 1)\<close>, where the stated
  length 1 means no swap and an unchanged permutation.
\<close>

theorem invert_apply_counterexample:
  "move_apply s1_evaluate_swap (invert_subsequence 3 1)
     (Permutation_problem \<lparr>pi_m = [0, 1, 2, 3, 4], cost_m = 30\<rparr>) =
     Some (Inr (Permutation_problem \<lparr>pi_m = [4, 3, 2, 1, 0], cost_m = 10\<rparr>))
   \<and> [4, 3, 2, 1, 0] \<noteq> [3, 1, 0, 4, 2 :: int]
   \<and> move_apply (\<lambda>sol i j. 1) (invert_subsequence 0 0)
        (Permutation_problem \<lparr>pi_m = [0, 1, 2], cost_m = 0\<rparr>) =
      Some (Inr (Permutation_problem \<lparr>pi_m = [0, 2, 1], cost_m = 2\<rparr>))
   \<and> spec_invert [0, 1, 2] 0 0 = [0, 1, 2]
   \<and> spec_length 3 0 0 div 2 = 0"
proof -
  have a: "move_apply s1_evaluate_swap (invert_subsequence 3 1)
             (Permutation_problem \<lparr>pi_m = [0, 1, 2, 3, 4], cost_m = 30\<rparr>) =
           Some (Inr (Permutation_problem \<lparr>pi_m = [4, 3, 2, 1, 0], cost_m = 10\<rparr>))"
    by code_simp
  have b: "move_apply (\<lambda>sol i j. 1) (invert_subsequence 0 0)
             (Permutation_problem \<lparr>pi_m = [0, 1, 2], cost_m = 0\<rparr>) =
           Some (Inr (Permutation_problem \<lparr>pi_m = [0, 2, 1], cost_m = 2\<rparr>))"
    by code_simp
  have c: "spec_invert [0, 1, 2] 0 0 = [0, 1, 2]"
    by (simp add: spec_invert_def spec_length_def upto_rec1)
  have d: "spec_length 3 0 0 div 2 = 0"
    by (simp add: spec_length_def)
  show ?thesis using a b c d by simp
qed

section \<open>Properties of the moves\<close>

lemma swap_evaluate_is_cost_after_apply:
  assumes "0 \<le> p1" "p1 < size_pp sol" "0 \<le> p2" "p2 < size_pp sol"
  shows "\<exists>c sol'. move_evaluate es (Swap_elements p1 p2) (Permutation_problem sol) = Some (Inr c)
           \<and> move_apply es (Swap_elements p1 p2) (Permutation_problem sol) =
               Some (Inr (Permutation_problem sol'))
           \<and> cost_function sol' = c"
  using assms by (simp add: apply_swap_in_range cost_function_def)

text \<open>
  C1 fails on the code. On the permutation \<open>(0, 1, 2, 3)\<close> with the cost \<open>14\<close> that
  \<^verbatim>\<open>compute_cost\<close> gives it, \<^verbatim>\<open>invert_subsequence(0, 1).evaluate\<close> returns \<open>-1\<close>, the sum of
  the \<^verbatim>\<open>evaluate_swap\<close> values alone, while the solution has cost \<open>13\<close> after
  \<^verbatim>\<open>apply\<close>, again what \<^verbatim>\<open>compute_cost\<close> gives the new permutation. On the same input
  \<^verbatim>\<open>swap_elements(0, 1).evaluate\<close> returns \<open>13\<close>.
\<close>

theorem invert_evaluate_omits_cost:
  "move_evaluate s1_evaluate_swap (invert_subsequence 0 1)
     (Permutation_problem \<lparr>pi_m = [0, 1, 2, 3], cost_m = 14\<rparr>) = Some (Inr (- 1))
   \<and> move_apply s1_evaluate_swap (invert_subsequence 0 1)
       (Permutation_problem \<lparr>pi_m = [0, 1, 2, 3], cost_m = 14\<rparr>) =
     Some (Inr (Permutation_problem \<lparr>pi_m = [1, 0, 2, 3], cost_m = 13\<rparr>))
   \<and> s1_compute_cost \<lparr>pi_m = [0, 1, 2, 3], cost_m = 14\<rparr> = 14
   \<and> s1_compute_cost \<lparr>pi_m = [1, 0, 2, 3], cost_m = 13\<rparr> = 13
   \<and> move_evaluate s1_evaluate_swap (swap_elements 0 1)
       (Permutation_problem \<lparr>pi_m = [0, 1, 2, 3], cost_m = 14\<rparr>) = Some (Inr 13)"
proof -
  have a: "move_evaluate s1_evaluate_swap (invert_subsequence 0 1)
             (Permutation_problem \<lparr>pi_m = [0, 1, 2, 3], cost_m = 14\<rparr>) = Some (Inr (- 1))"
    by code_simp
  have b: "move_apply s1_evaluate_swap (invert_subsequence 0 1)
             (Permutation_problem \<lparr>pi_m = [0, 1, 2, 3], cost_m = 14\<rparr>) =
           Some (Inr (Permutation_problem \<lparr>pi_m = [1, 0, 2, 3], cost_m = 13\<rparr>))"
    by code_simp
  have c: "s1_compute_cost \<lparr>pi_m = [0, 1, 2, 3], cost_m = 14\<rparr> = 14"
    by code_simp
  have d: "s1_compute_cost \<lparr>pi_m = [1, 0, 2, 3], cost_m = 13\<rparr> = 13"
    by code_simp
  have e: "move_evaluate s1_evaluate_swap (swap_elements 0 1)
             (Permutation_problem \<lparr>pi_m = [0, 1, 2, 3], cost_m = 14\<rparr>) = Some (Inr 13)"
    by code_simp
  show ?thesis using a b c d e by simp
qed

text \<open>
  C6 as stated fails for the moves: \<^verbatim>\<open>swap_elements::apply\<close> and
  \<^verbatim>\<open>invert_subsequence::evaluate\<close> on an evaluable solution that is no permutation
  problem go through a \<^verbatim>\<open>static_cast\<close>, and what leaves the call is not
  \<^verbatim>\<open>std::bad_cast\<close>.
\<close>

theorem move_type_mismatch_counterexample:
  "move_apply s1_evaluate_swap (swap_elements 0 1) (Evaluable_solution 3) \<noteq> Some (Inl BadCast)
   \<and> move_evaluate s1_evaluate_swap (invert_subsequence 0 1) (Evaluable_solution 3) \<noteq>
       Some (Inl BadCast)"
  by (simp add: swap_elements_def invert_subsequence_def)

text \<open>
  C6, amended. \<^verbatim>\<open>copy_from\<close> called with a solution that is no permutation problem
  throws \<^verbatim>\<open>std::bad_cast\<close> and leaves its object as it was. \<^verbatim>\<open>evaluate\<close> and \<^verbatim>\<open>apply\<close> of
  both move classes, called on such a solution, check nothing: the cast is a
  \<^verbatim>\<open>static_cast\<close> and no type error is raised.
\<close>

theorem type_mismatch:
  assumes "\<forall>p. other \<noteq> Permutation_problem p"
  shows "copy_from this other = (Some BadCast, this)
         \<and> move_evaluate evaluate_swap m other = Some (Inl UndefinedBehaviour)
         \<and> move_apply evaluate_swap m other = Some (Inl UndefinedBehaviour)"
  using assms by (cases other; cases m) auto

theorem type_mismatch_witness:
  "(\<forall>p. Evaluable_solution 3 \<noteq> Permutation_problem p)
   \<and> copy_from \<lparr>pi_m = [0, 1, 2], cost_m = 5\<rparr> (Evaluable_solution 3) =
       (Some BadCast, \<lparr>pi_m = [0, 1, 2], cost_m = 5\<rparr>)
   \<and> move_apply s1_evaluate_swap (swap_elements 0 1) (Evaluable_solution 3) =
       Some (Inl UndefinedBehaviour)"
  using type_mismatch [of "Evaluable_solution 3" "\<lparr>pi_m = [0, 1, 2], cost_m = 5\<rparr>"
          s1_evaluate_swap "swap_elements 0 1"]
  by simp

section \<open>Properties of the constructors\<close>

lemma swap_full_inner_returns:
  assumes "jj \<le> sz"
  shows "swap_full_inner sz ii jj ms = Some (ms @ map (swap_elements ii) [jj..sz - 1])"
  using assms
proof (induction "nat (sz - jj)" arbitrary: jj ms)
  case 0
  then have "jj = sz" by simp
  then show ?case by (subst swap_full_inner.simps) simp
next
  case (Suc d)
  then have lt: "jj < sz" by linarith
  have "swap_full_inner sz ii (jj + 1) (ms @ [swap_elements ii jj]) =
          Some ((ms @ [swap_elements ii jj]) @ map (swap_elements ii) [jj + 1..sz - 1])"
    using Suc.hyps(2) lt by (intro Suc.hyps(1)) auto
  then show ?case
    using lt by (subst swap_full_inner.simps) (simp add: upto_rec1 [of jj])
qed

lemma swap_full_outer_returns:
  assumes "ii \<le> sz - 1"
  shows "swap_full_outer sz ii ms =
           Some (ms @ concat (map (\<lambda>i. map (swap_elements i) [i + 1..sz - 1]) [ii..sz - 2]))"
  using assms
proof (induction "nat (sz - 1 - ii)" arbitrary: ii ms)
  case 0
  then have "ii = sz - 1" by simp
  then show ?case by (subst swap_full_outer.simps) simp
next
  case (Suc d)
  then have lt: "ii < sz - 1" by linarith
  let ?ms = "ms @ map (swap_elements ii) [ii + 1..sz - 1]"
  have inner: "swap_full_inner sz ii (ii + 1) ms = Some ?ms"
    using lt by (intro swap_full_inner_returns) simp
  have "swap_full_outer sz (ii + 1) ?ms =
          Some (?ms @ concat (map (\<lambda>i. map (swap_elements i) [i + 1..sz - 1]) [ii + 1..sz - 2]))"
    using Suc.hyps(2) lt by (intro Suc.hyps(1)) auto
  then show ?case
    using lt inner by (subst swap_full_outer.simps) (simp add: upto_rec1 [of ii])
qed

lemma invert_full_inner_returns:
  assumes "jj \<le> sz"
  shows "invert_full_inner sz ii jj ms =
           Some (ms @ map (invert_subsequence ii) (filter (\<lambda>j. ii \<noteq> j) [jj..sz - 1]))"
  using assms
proof (induction "nat (sz - jj)" arbitrary: jj ms)
  case 0
  then have "jj = sz" by simp
  then show ?case by (subst invert_full_inner.simps) simp
next
  case (Suc d)
  then have lt: "jj < sz" by linarith
  let ?ms = "if ii \<noteq> jj then ms @ [invert_subsequence ii jj] else ms"
  have "invert_full_inner sz ii (jj + 1) ?ms =
          Some (?ms @ map (invert_subsequence ii) (filter (\<lambda>j. ii \<noteq> j) [jj + 1..sz - 1]))"
    using Suc.hyps(2) lt by (intro Suc.hyps(1)) auto
  then show ?case
    using lt by (subst invert_full_inner.simps) (simp add: upto_rec1 [of jj])
qed

lemma invert_full_outer_returns:
  assumes "ii \<le> sz" "0 \<le> sz"
  shows "invert_full_outer sz ii ms =
           Some (ms @ concat (map (\<lambda>i. map (invert_subsequence i)
                                          (filter (\<lambda>j. i \<noteq> j) [0..sz - 1])) [ii..sz - 1]))"
  using assms
proof (induction "nat (sz - ii)" arbitrary: ii ms)
  case 0
  then have "ii = sz" by simp
  then show ?case by (subst invert_full_outer.simps) simp
next
  case (Suc d)
  then have lt: "ii < sz" by linarith
  let ?ms = "ms @ map (invert_subsequence ii) (filter (\<lambda>j. ii \<noteq> j) [0..sz - 1])"
  have inner: "invert_full_inner sz ii 0 ms = Some ?ms"
    using Suc.prems by (intro invert_full_inner_returns) simp
  have "invert_full_outer sz (ii + 1) ?ms =
          Some (?ms @ concat (map (\<lambda>i. map (invert_subsequence i)
                                           (filter (\<lambda>j. i \<noteq> j) [0..sz - 1])) [ii + 1..sz - 1]))"
    using Suc.hyps(2) Suc.prems lt by (intro Suc.hyps(1)) auto
  then show ?case
    using lt inner by (subst invert_full_outer.simps) (simp add: upto_rec1 [of ii])
qed

text \<open>
  C7 as stated fails: \<^verbatim>\<open>exponential_cooling(0)\<close> and \<^verbatim>\<open>exponential_cooling(-1)\<close> are
  constructed although the parameter is not strictly between 0 and 1, and the
  neighborhoods of size 1 and the stochastic neighborhood of no moves are constructed,
  empty.
\<close>

theorem construction_counterexample:
  "exponential_cooling 0 = Inr (Exponential_cooling 0)
   \<and> exponential_cooling (- 1) = Inr (Exponential_cooling (- 1))
   \<and> swap_full_neighborhood 1 = Some []
   \<and> invert_full_neighborhood 1 = Some []
   \<and> swap_neighborhood 0 = []"
proof -
  have a: "swap_full_neighborhood 1 = Some []" by code_simp
  have b: "invert_full_neighborhood 1 = Some []" by code_simp
  show ?thesis using a b by (simp add: exponential_cooling_def swap_neighborhood_def)
qed

text \<open>
  C7, amended. \<^verbatim>\<open>exponential_cooling(alpha)\<close> throws exactly when \<open>alpha \<ge> 1\<close> and
  \<^verbatim>\<open>linear_cooling(delta)\<close> exactly when \<open>delta \<le> 0\<close>. The neighborhood constructors throw
  nothing: \<^verbatim>\<open>swap_full_neighborhood(n)\<close> for \<open>n \<ge> 1\<close> returns with the moves
  \<^verbatim>\<open>swap_elements(i, j)\<close> for \<open>i < j\<close>, \<^verbatim>\<open>invert_full_neighborhood(n)\<close> for \<open>n \<ge> 0\<close> returns
  with the moves \<^verbatim>\<open>invert_subsequence(i, j)\<close> for \<open>i \<noteq> j\<close>, and \<^verbatim>\<open>swap_neighborhood\<close> returns
  with as many moves \<^verbatim>\<open>swap_elements(0, 0)\<close> as it is asked for.
\<close>

theorem construction_checks:
  "isl (exponential_cooling alpha) = (alpha \<ge> 1)
   \<and> isl (linear_cooling delta) = (delta \<le> 0)
   \<and> (1 \<le> n \<longrightarrow>
        swap_full_neighborhood n =
          Some (concat (map (\<lambda>i. map (swap_elements i) [i + 1..n - 1]) [0..n - 2])))
   \<and> (0 \<le> n \<longrightarrow>
        invert_full_neighborhood n =
          Some (concat (map (\<lambda>i. map (invert_subsequence i) (filter (\<lambda>j. i \<noteq> j) [0..n - 1]))
                          [0..n - 1])))
   \<and> swap_neighborhood k = replicate k (Swap_elements 0 0)"
  using swap_full_outer_returns [of 0 n "[]"] invert_full_outer_returns [of 0 n "[]"]
  by (simp add: exponential_cooling_def linear_cooling_def swap_full_neighborhood_def
        invert_full_neighborhood_def swap_neighborhood_def swap_elements_def)

theorem construction_checks_witness:
  "isl (exponential_cooling (19 / 20)) = ((19 / 20 :: real) \<ge> 1)
   \<and> isl (linear_cooling (1 / 10)) = ((1 / 10 :: real) \<le> 0)
   \<and> (1::int) \<le> 3
   \<and> swap_full_neighborhood 3 = Some [Swap_elements 0 1, Swap_elements 0 2, Swap_elements 1 2]
   \<and> (0::int) \<le> 3
   \<and> invert_full_neighborhood 3 =
       Some [Invert_subsequence 0 1, Invert_subsequence 0 2, Invert_subsequence 1 0,
             Invert_subsequence 1 2, Invert_subsequence 2 0, Invert_subsequence 2 1]
   \<and> swap_neighborhood 2 = [Swap_elements 0 0, Swap_elements 0 0]"
  using construction_checks [of "19 / 20" "1 / 10" 3 2]
  by (simp add: upto_rec1 swap_elements_def invert_subsequence_def numeral_2_eq_2)

section \<open>Properties of the search\<close>




lemma sa_accepted_temp: "current_temp_m (sa_accepted ops i m st) = current_temp_m st"
  by (simp add: sa_accepted_def Let_def split: prod.splits)

lemma sa_scan_temp: "current_temp_m (snd (sa_scan ops c i ms st)) = current_temp_m st"
  by (induction ms arbitrary: i st) (auto simp: sa_accepted_temp split: prod.splits)

lemma sa_body_temp:
  "current_temp_m (sa_body ops st) =
     cooling ops (current_temp_m st) (working_solution_m (sa_body ops st))"
  by (simp add: sa_body_def Let_def sa_scan_temp)












end
